theory Spec2Isabelle
  imports Main "HOL-Library.Sublist"
begin

section \<open>Python values, dictionaries and the object store\<close>

text \<open>
  The importer of \<^verbatim>\<open>cms/db/ImportFromDict.py\<close> turns a tree of plain dictionaries
  into a graph of entity objects. The values it handles are modelled by \<open>pyval\<close>:
  \<open>PNone\<close>, integers, strings, lists, tuples, dictionaries (association lists in
  insertion order, with pairwise distinct keys) and references \<open>PRef r\<close> to entity
  objects. An entity object lives in the store at address \<open>r\<close>; two references are the
  same object (Python's \<^verbatim>\<open>is\<close>) exactly when their addresses are equal.
  Floats and booleans only occur as payload that is copied, and are not modelled.
\<close>

datatype pyval =
    PNone
  | PInt int
  | PStr string
  | PRef nat
  | PList "pyval list"
  | PTuple "pyval list"
  | PDict "(pyval \<times> pyval) list"

type_synonym pydict = "(pyval \<times> pyval) list"

text \<open>
  The exceptions the importer can raise. \<open>KeyError\<close> carries its argument: a missing
  dictionary key, or the message of \<^verbatim>\<open>KeyError("User not found")\<close>.
\<close>

datatype pyerror = IndexError | KeyError pyval | TypeError | AttributeError

datatype cls =
    Announcement | Question | Message | SubmissionFormatElement
  | Manager | Attachment | Testcase | Evaluation | File | Executable | Token
  | Contest | RankingView | Score | User | Task | Submission

text \<open>An object is its class and its attribute dictionary; the store is the list of all
  objects created so far, an object's address being its position.\<close>

type_synonym obj = "cls \<times> pydict"
type_synonym store = "obj list"

text \<open>Sequencing of steps that may raise: the first exception ends the computation.\<close>

definition andthen :: "pyerror + 'a \<Rightarrow> ('a \<Rightarrow> pyerror + 'b) \<Rightarrow> pyerror + 'b" where
  "andthen m f = (case m of Inl e \<Rightarrow> Inl e | Inr x \<Rightarrow> f x)"

text \<open>\<^verbatim>\<open>d[k]\<close> on a dictionary.\<close>

definition getitem :: "pydict \<Rightarrow> pyval \<Rightarrow> pyerror + pyval" where
  "getitem d k = (case map_of d k of None \<Rightarrow> Inl (KeyError k) | Some v \<Rightarrow> Inr v)"

text \<open>\<^verbatim>\<open>d[k] = v\<close>: an existing key keeps its place, a new key goes last.\<close>

fun setitem :: "pydict \<Rightarrow> pyval \<Rightarrow> pyval \<Rightarrow> pydict" where
  "setitem [] k v = [(k, v)]"
| "setitem ((k', v') # d) k v =
     (if k' = k then (k, v) # d else (k', v') # setitem d k v)"

text \<open>Lists and dictionaries are unhashable, a tuple is hashable when its elements are;
  objects hash by identity.\<close>

fun hashable :: "pyval \<Rightarrow> bool" where
  "hashable (PList xs) = False"
| "hashable (PDict d) = False"
| "hashable (PTuple xs) = (\<forall>x \<in> set xs. hashable x)"
| "hashable v = True"

text \<open>\<^verbatim>\<open>dict(pairs)\<close>: the pairs are stored from left to right, so a later pair
  with the key of an earlier one replaces its value. An unhashable key raises
  \<^verbatim>\<open>TypeError\<close>.\<close>

fun dict_from :: "pydict \<Rightarrow> (pyval \<times> pyval) list \<Rightarrow> pyerror + pydict" where
  "dict_from d [] = Inr d"
| "dict_from d ((k, v) # ps) =
     (if hashable k then dict_from (setitem d k v) ps else Inl TypeError)"

definition py_dict :: "(pyval \<times> pyval) list \<Rightarrow> pyerror + pydict" where
  "py_dict ps = dict_from [] ps"

text \<open>\<^verbatim>\<open>xs[i]\<close>: on a list or tuple a negative index counts from the end and an
  index outside \<open>-len .. len - 1\<close> raises \<^verbatim>\<open>IndexError\<close>; on a dictionary it is
  a key lookup; a string index gives a one-character string.\<close>

definition index_seq :: "'a list \<Rightarrow> pyval \<Rightarrow> pyerror + 'a" where
  "index_seq xs i =
     (case i of
        PInt n \<Rightarrow>
          (let len = int (length xs); j = (if n < 0 then n + len else n)
           in if 0 \<le> j \<and> j < len then Inr (xs ! nat j) else Inl IndexError)
      | _ \<Rightarrow> Inl TypeError)"

definition subscript :: "pyval \<Rightarrow> pyval \<Rightarrow> pyerror + pyval" where
  "subscript c i =
     (case c of
        PList xs \<Rightarrow> index_seq xs i
      | PTuple xs \<Rightarrow> index_seq xs i
      | PDict d \<Rightarrow> (if hashable i then getitem d i else Inl TypeError)
      | PStr cs \<Rightarrow> andthen (index_seq cs i) (\<lambda>ch. Inr (PStr [ch]))
      | _ \<Rightarrow> Inl TypeError)"

text \<open>The elements a \<^verbatim>\<open>for\<close> loop or a comprehension visits.\<close>

definition py_iter :: "pyval \<Rightarrow> pyerror + pyval list" where
  "py_iter v =
     (case v of
        PList xs \<Rightarrow> Inr xs
      | PTuple xs \<Rightarrow> Inr xs
      | PDict d \<Rightarrow> Inr (map fst d)
      | PStr cs \<Rightarrow> Inr (map (\<lambda>ch. PStr [ch]) cs)
      | _ \<Rightarrow> Inl TypeError)"

text \<open>A record handed to a builder has to be a dictionary: every builder starts with
  \<^verbatim>\<open>data[...]\<close> or \<^verbatim>\<open>cls(**data)\<close>, which raise \<^verbatim>\<open>TypeError\<close> on anything
  else.\<close>

definition as_record :: "pyval \<Rightarrow> pyerror + pydict" where
  "as_record v = (case v of PDict d \<Rightarrow> Inr d | _ \<Rightarrow> Inl TypeError)"

fun is_str :: "pyval \<Rightarrow> bool" where
  "is_str (PStr s) = True"
| "is_str v = False"

text \<open>
  Modelled from the spec: the entity classes (\<^verbatim>\<open>cms.db.Contest\<close>, \<^verbatim>\<open>Task\<close>,
  \<^verbatim>\<open>User\<close>, \<^verbatim>\<open>Submission\<close>, \<^verbatim>\<open>View\<close>) and their constructors are not among the
  source files. After section 4.1 a constructor "fails [...] if a required field is
  absent". Which fields a class requires is stated nowhere, so it is a parameter of the
  model: \<open>req c\<close> lists the names of the fields class \<open>c\<close> requires. The
  constructor accepts a record when its keys are strings (they are keyword arguments)
  and every required field is among them.
\<close>

type_synonym requirements = "cls \<Rightarrow> string list"

definition accepted :: "requirements \<Rightarrow> cls \<Rightarrow> pydict \<Rightarrow> bool" where
  "accepted req c data \<longleftrightarrow>
     (\<forall>k \<in> fst ` set data. is_str k) \<and> (\<forall>f \<in> set (req c). PStr f \<in> fst ` set data)"

text \<open>
  Modelled from the spec: after section 4.1, \<^verbatim>\<open>cls(**data)\<close> constructs the entity "by
  field-for-field assignment": a new object whose attributes are the entries of
  \<open>data\<close>. A record the constructor does not accept raises \<^verbatim>\<open>TypeError\<close> (the
  spec's MalformedRecord), as Python does for a missing or a non-string keyword
  argument.
\<close>

definition construct :: "requirements \<Rightarrow> cls \<Rightarrow> pydict \<Rightarrow> store \<Rightarrow> pyerror + (pyval \<times> store)" where
  "construct req c data s =
     (if accepted req c data then Inr (PRef (length s), s @ [(c, data)])
      else Inl TypeError)"

text \<open>\<^verbatim>\<open>x == y\<close>: values of different kinds are unequal; lists and tuples are
  compared element by element; two dictionaries are equal when they have the same keys
  with equal values, in whatever order; objects are compared by identity.\<close>

function (sequential) py_eq :: "pyval \<Rightarrow> pyval \<Rightarrow> bool" where
  "py_eq PNone PNone = True"
| "py_eq (PInt i) (PInt j) = (i = j)"
| "py_eq (PStr a) (PStr b) = (a = b)"
| "py_eq (PRef a) (PRef b) = (a = b)"
| "py_eq (PList xs) (PList ys) =
     (length xs = length ys \<and> (\<forall>(x, y) \<in> set (zip xs ys). py_eq x y))"
| "py_eq (PTuple xs) (PTuple ys) =
     (length xs = length ys \<and> (\<forall>(x, y) \<in> set (zip xs ys). py_eq x y))"
| "py_eq (PDict a) (PDict b) =
     (set (map fst b) \<subseteq> set (map fst a) \<and>
      (\<forall>k \<in> set (map fst a).
         case map_of a k of
           None \<Rightarrow> False
         | Some v \<Rightarrow> (case map_of b k of None \<Rightarrow> False | Some w \<Rightarrow> py_eq v w)))"
| "py_eq x y = False"
  by pat_completeness auto

termination
proof (relation "measure (\<lambda>(x, y). size x)")
  show "wf (measure (\<lambda>(x, y). size x))"
    by simp
next
  fix xs ys :: "pyval list" and z x y
  assume "z \<in> set (zip xs ys)" "(x, y) = z"
  then have "x \<in> set xs"
    by (auto dest: set_zip_leftD)
  then have "size x \<le> size_list size xs"
    by (rule size_list_estimation') simp
  then show "((x, y), (PList xs, PList ys)) \<in> measure (\<lambda>(x, y). size x)"
    "((x, y), (PTuple xs, PTuple ys)) \<in> measure (\<lambda>(x, y). size x)"
    by simp_all
next
  fix a b :: "(pyval \<times> pyval) list" and k v w
  assume "map_of a k = Some v"
  then have "size v < Suc (size_list (size_prod size size) a)"
    by (induction a) (auto split: if_splits)
  then show "((v, w), (PDict a, PDict b)) \<in> measure (\<lambda>(x, y). size x)"
    by simp
qed

text \<open>\<^verbatim>\<open>o.name\<close>: only objects of the store have the attributes read here.\<close>

definition py_getattr :: "store \<Rightarrow> pyval \<Rightarrow> string \<Rightarrow> pyerror + pyval" where
  "py_getattr s v name =
     (case v of
        PRef r \<Rightarrow>
          (if r < length s then
             (case map_of (snd (s ! r)) (PStr name) of
                None \<Rightarrow> Inl AttributeError
              | Some x \<Rightarrow> Inr x)
           else Inl AttributeError)
      | _ \<Rightarrow> Inl AttributeError)"

text \<open>\<^verbatim>\<open>o.name = x\<close>: the one mutation of an existing object.\<close>

definition py_setattr :: "store \<Rightarrow> pyval \<Rightarrow> string \<Rightarrow> pyval \<Rightarrow> pyerror + store" where
  "py_setattr s v name x =
     (case v of
        PRef r \<Rightarrow>
          (if r < length s
           then Inr (s[r := (fst (s ! r), setitem (snd (s ! r)) (PStr name) x)])
           else Inl AttributeError)
      | _ \<Rightarrow> Inl AttributeError)"

section \<open>The builders\<close>

text \<open>
  Every builder takes the requirements \<open>req\<close> of the constructors, the record
  \<open>data\<close> (a dictionary the caller owns), the store, and for the context-resolving
  ones the context collections. It returns the new
  object, the contents of the caller's dictionary when the builder returns (the source
  assigns to \<^verbatim>\<open>data[...]\<close> in place) and the new store, or the exception raised.
\<close>

type_synonym builder = "pydict \<Rightarrow> store \<Rightarrow> pyerror + (pyval \<times> pydict \<times> store)"

definition basic_import_from_dict :: "requirements \<Rightarrow> cls \<Rightarrow> builder" where
  "basic_import_from_dict req c data s =
     andthen (construct req c data s) (\<lambda>(obj, s'). Inr (obj, data, s'))"

text \<open>\<^verbatim>\<open>[C.import_from_dict(x) for x in xs]\<close>: left to right, each call on the
  store the previous one left.\<close>

fun import_each :: "builder \<Rightarrow> pyval list \<Rightarrow> store \<Rightarrow> pyerror + (pyval list \<times> store)" where
  "import_each f [] s = Inr ([], s)"
| "import_each f (x # xs) s =
     andthen (as_record x) (\<lambda>d.
     andthen (f d s) (\<lambda>(obj, d', s1).
     andthen (import_each f xs s1) (\<lambda>(objs, s2).
     Inr (obj # objs, s2))))"

text \<open>The statement
  \<^verbatim>\<open>data[key] = [C.import_from_dict(x) for x in data[key]]\<close>.\<close>

definition import_field :: "builder \<Rightarrow> string \<Rightarrow> pydict \<Rightarrow> store \<Rightarrow> pyerror + (pydict \<times> store)" where
  "import_field f key data s =
     andthen (getitem data (PStr key)) (\<lambda>v.
     andthen (py_iter v) (\<lambda>xs.
     andthen (import_each f xs s) (\<lambda>(objs, s').
     Inr (setitem data (PStr key) (PList objs), s'))))"

text \<open>\<^verbatim>\<open>[(keyfunc(o), o) for o in objs]\<close>.\<close>

fun key_pairs :: "(store \<Rightarrow> pyval \<Rightarrow> pyerror + pyval) \<Rightarrow> store \<Rightarrow> pyval list \<Rightarrow> pyerror + (pyval \<times> pyval) list" where
  "key_pairs kf s [] = Inr []"
| "key_pairs kf s (x # xs) =
     andthen (kf s x) (\<lambda>k.
     andthen (key_pairs kf s xs) (\<lambda>ps.
     Inr ((k, x) # ps)))"

text \<open>The statement
  \<^verbatim>\<open>data[key] = dict([(keyfunc(o), o) for o in data[key]])\<close>.\<close>

definition key_field :: "(store \<Rightarrow> pyval \<Rightarrow> pyerror + pyval) \<Rightarrow> string \<Rightarrow> pydict \<Rightarrow> store \<Rightarrow> pyerror + pydict" where
  "key_field kf key data s =
     andthen (getitem data (PStr key)) (\<lambda>v.
     andthen (py_iter v) (\<lambda>objs.
     andthen (key_pairs kf s objs) (\<lambda>ps.
     andthen (py_dict ps) (\<lambda>d.
     Inr (setitem data (PStr key) (PDict d))))))"

definition filename_of :: "store \<Rightarrow> pyval \<Rightarrow> pyerror + pyval" where
  "filename_of s x = py_getattr s x ''filename''"

text \<open>The two statements that build a collection keyed by filename (lines 110-111,
  113-114, 124-125 and 126-127).\<close>

definition import_keyed :: "requirements \<Rightarrow> cls \<Rightarrow> string \<Rightarrow> pydict \<Rightarrow> store \<Rightarrow> pyerror + (pydict \<times> store)" where
  "import_keyed req c key data s =
     andthen (import_field (basic_import_from_dict req c) key data s) (\<lambda>(data1, s1).
     andthen (key_field filename_of key data1 s1) (\<lambda>data2.
     Inr (data2, s1)))"

definition task_import_from_dict :: "requirements \<Rightarrow> builder" where
  "task_import_from_dict req data s =
     andthen (import_keyed req Attachment ''attachments'' data s) (\<lambda>(data1, s1).
     andthen (import_field (basic_import_from_dict req SubmissionFormatElement)
                ''submission_format'' data1 s1) (\<lambda>(data2, s2).
     andthen (import_keyed req Manager ''managers'' data2 s2) (\<lambda>(data3, s3).
     andthen (import_field (basic_import_from_dict req Testcase) ''testcases'' data3 s3) (\<lambda>(data4, s4).
     andthen (construct req Task data4 s4) (\<lambda>(obj, s5).
     Inr (obj, data4, s5))))))"

text \<open>Lines 129-130: the token is built only when it is not \<^verbatim>\<open>None\<close>.\<close>

definition import_token :: "requirements \<Rightarrow> pydict \<Rightarrow> store \<Rightarrow> pyerror + (pydict \<times> store)" where
  "import_token req data s =
     andthen (getitem data (PStr ''token'')) (\<lambda>tok.
     if tok \<noteq> PNone then
       andthen (as_record tok) (\<lambda>d.
       andthen (basic_import_from_dict req Token d s) (\<lambda>(obj, d', s').
       Inr (setitem data (PStr ''token'') obj, s')))
     else Inr (data, s))"

text \<open>Lines 124-130 of \<^verbatim>\<open>submission_import_from_dict\<close>: the sub-trees a submission
  owns.\<close>

definition submission_owned :: "requirements \<Rightarrow> pydict \<Rightarrow> store \<Rightarrow> pyerror + (pydict \<times> store)" where
  "submission_owned req data s =
     andthen (import_keyed req File ''files'' data s) (\<lambda>(data1, s1).
     andthen (import_keyed req Executable ''executables'' data1 s1) (\<lambda>(data2, s2).
     andthen (import_field (basic_import_from_dict req Evaluation) ''evaluations'' data2 s2) (\<lambda>(data3, s3).
     import_token req data3 s3)))"

text \<open>Lines 131-133: the task is resolved by position, the user is left unset.\<close>

definition submission_import_from_dict :: "requirements \<Rightarrow> pyval \<Rightarrow> builder" where
  "submission_import_from_dict req tasks data s =
     andthen (submission_owned req data s) (\<lambda>(data1, s1).
     andthen (getitem data1 (PStr ''task'')) (\<lambda>i.
     andthen (subscript tasks i) (\<lambda>t.
     let data2 = setitem data1 (PStr ''task'') t;
         data3 = setitem data2 (PStr ''user'') PNone
     in andthen (construct req Submission data3 s1) (\<lambda>(obj, s2).
        Inr (obj, data3, s2)))))"

text \<open>The loop of \<^verbatim>\<open>get_user\<close>: the first user whose username equals
  (\<^verbatim>\<open>==\<close>) the one looked for.\<close>

fun find_user :: "store \<Rightarrow> pyval list \<Rightarrow> pyval \<Rightarrow> pyerror + pyval" where
  "find_user s [] username = Inl (KeyError (PStr ''User not found''))"
| "find_user s (u # us) username =
     andthen (py_getattr s u ''username'') (\<lambda>n.
     if py_eq n username then Inr u else find_user s us username)"

definition get_user :: "store \<Rightarrow> pyval \<Rightarrow> pyval \<Rightarrow> pyerror + pyval" where
  "get_user s users username = andthen (py_iter users) (\<lambda>us. find_user s us username)"

definition score_import_from_dict :: "requirements \<Rightarrow> pyval \<Rightarrow> pyval \<Rightarrow> builder" where
  "score_import_from_dict req tasks users data s =
     andthen (getitem data (PStr ''task'')) (\<lambda>i.
     andthen (subscript tasks i) (\<lambda>t.
     let data1 = setitem data (PStr ''task'') t
     in andthen (getitem data1 (PStr ''user'')) (\<lambda>n.
        andthen (get_user s users n) (\<lambda>u.
        let data2 = setitem data1 (PStr ''user'') u
        in andthen (construct req Score data2 s) (\<lambda>(obj, s').
           Inr (obj, data2, s'))))))"

text \<open>
  Modelled from the spec: \<^verbatim>\<open>Score.rankingview_keyfunc\<close> is defined in
  \<^verbatim>\<open>cms.db.View\<close>, which is not among the source files. After section 3 a score is
  "uniquely identified by the (task, user) pair" and the ranking view's scores are
  "keyed by (task, user)": the key is the pair of the score's task and user.
\<close>

definition rankingview_keyfunc :: "store \<Rightarrow> pyval \<Rightarrow> pyerror + pyval" where
  "rankingview_keyfunc s score =
     andthen (py_getattr s score ''task'') (\<lambda>t.
     andthen (py_getattr s score ''user'') (\<lambda>u.
     Inr (PTuple [t, u])))"

definition rankingview_import_from_dict :: "requirements \<Rightarrow> pyval \<Rightarrow> pyval \<Rightarrow> builder" where
  "rankingview_import_from_dict req tasks users data s =
     andthen (import_field (score_import_from_dict req tasks users) ''scores'' data s) (\<lambda>(data1, s1).
     andthen (key_field rankingview_keyfunc ''scores'' data1 s1) (\<lambda>data2.
     andthen (construct req RankingView data2 s1) (\<lambda>(obj, s2).
     Inr (obj, data2, s2))))"

text \<open>Lines 100-101: the back-reference patch, one assignment per element of
  \<^verbatim>\<open>obj.submissions\<close>.\<close>

fun patch_user :: "pyval \<Rightarrow> pyval list \<Rightarrow> store \<Rightarrow> pyerror + store" where
  "patch_user obj [] s = Inr s"
| "patch_user obj (sub # subs) s =
     andthen (py_setattr s sub ''user'' obj) (\<lambda>s'. patch_user obj subs s')"

definition user_import_from_dict :: "requirements \<Rightarrow> pyval \<Rightarrow> builder" where
  "user_import_from_dict req tasks data s =
     andthen (import_field (basic_import_from_dict req Message) ''messages'' data s) (\<lambda>(data1, s1).
     andthen (import_field (basic_import_from_dict req Question) ''questions'' data1 s1) (\<lambda>(data2, s2).
     andthen (import_field (submission_import_from_dict req tasks) ''submissions'' data2 s2) (\<lambda>(data3, s3).
     andthen (construct req User data3 s3) (\<lambda>(obj, s4).
     andthen (py_getattr s4 obj ''submissions'') (\<lambda>v.
     andthen (py_iter v) (\<lambda>subs.
     andthen (patch_user obj subs s4) (\<lambda>s5.
     Inr (obj, data3, s5))))))))"

text \<open>Lines 52-56. The keyword argument \<^verbatim>\<open>tasks=data['tasks']\<close> is the list line 52
  stored, \<^verbatim>\<open>users=data['users']\<close> the one line 53 stored.\<close>

definition contest_import_from_dict :: "requirements \<Rightarrow> builder" where
  "contest_import_from_dict req data s =
     andthen (import_field (task_import_from_dict req) ''tasks'' data s) (\<lambda>(data1, s1).
     andthen (getitem data1 (PStr ''users'')) (\<lambda>uv.
     andthen (py_iter uv) (\<lambda>urecs.
     andthen (getitem data1 (PStr ''tasks'')) (\<lambda>tasks.
     andthen (import_each (user_import_from_dict req tasks) urecs s1) (\<lambda>(us, s2).
     let data2 = setitem data1 (PStr ''users'') (PList us)
     in andthen (import_field (basic_import_from_dict req Announcement) ''announcements'' data2 s2) (\<lambda>(data3, s3).
        andthen (getitem data3 (PStr ''ranking_view'')) (\<lambda>rv.
        andthen (getitem data3 (PStr ''tasks'')) (\<lambda>tasks'.
        andthen (getitem data3 (PStr ''users'')) (\<lambda>users.
        andthen (as_record rv) (\<lambda>rvd.
        andthen (rankingview_import_from_dict req tasks' users rvd s3) (\<lambda>(rvobj, rvd', s4).
        let data4 = setitem data3 (PStr ''ranking_view'') rvobj
        in andthen (construct req Contest data4 s4) (\<lambda>(obj, s5).
           Inr (obj, data4, s5)))))))))))))"

section \<open>Auxiliary notions\<close>

text \<open>An object is fresh between two stores when it was created after the first and
  exists in the second. A builder is framed when it leaves every existing object as it
  was and returns a fresh one.\<close>

definition fresh_in :: "store \<Rightarrow> store \<Rightarrow> pyval \<Rightarrow> bool" where
  "fresh_in s s' v = (case v of PRef r \<Rightarrow> length s \<le> r \<and> r < length s' | _ \<Rightarrow> False)"

definition framed :: "builder \<Rightarrow> bool" where
  "framed f = (\<forall>d s obj d' s'. f d s = Inr (obj, d', s') \<longrightarrow> prefix s s' \<and> fresh_in s s' obj)"

text \<open>Requirements for the examples: the entities keyed by filename need one, a user
  needs a username, a task and a contest a name.\<close>

fun demo_req :: requirements where
  "demo_req Attachment = [''filename'']"
| "demo_req Manager = [''filename'']"
| "demo_req File = [''filename'']"
| "demo_req Executable = [''filename'']"
| "demo_req User = [''username'']"
| "demo_req Task = [''name'']"
| "demo_req Contest = [''name'']"
| "demo_req c = []"

text \<open>A store holding one task and one user, and small records over it.\<close>

definition demo_store :: store where
  "demo_store = [(Task, [(PStr ''name'', PStr ''sum'')]), (User, [(PStr ''username'', PStr ''alice'')])]"

definition demo_score :: "int \<Rightarrow> pydict" where
  "demo_score t = [(PStr ''task'', PInt t), (PStr ''user'', PStr ''alice'')]"

definition demo_submission :: "int \<Rightarrow> pydict" where
  "demo_submission t = [(PStr ''task'', PInt t), (PStr ''files'', PList []),
     (PStr ''executables'', PList []), (PStr ''evaluations'', PList []), (PStr ''token'', PNone)]"

definition keyed_from :: "store \<Rightarrow> cls \<Rightarrow> pyval list \<Rightarrow> nat \<Rightarrow> pydict \<Rightarrow> bool" where
  "keyed_from s' c recs base m \<longleftrightarrow>
     distinct (map fst m) \<and> base + length recs \<le> length s' \<and>
     (\<forall>j < length recs. \<exists>r. recs ! j = PDict r \<and> s' ! (base + j) = (c, r)) \<and>
     (\<forall>fn v. map_of m fn = Some v \<longleftrightarrow>
        (\<exists>j r. j < length recs \<and> recs ! j = PDict r \<and> v = PRef (base + j) \<and>
           map_of r (PStr ''filename'') = Some fn \<and>
           (\<forall>l r'. j < l \<and> l < length recs \<and> recs ! l = PDict r' \<longrightarrow>
              map_of r' (PStr ''filename'') \<noteq> Some fn)))"

definition demo_task :: pydict where
  "demo_task =
     [(PStr ''name'', PStr ''sum''),
      (PStr ''attachments'',
         PList [PDict [(PStr ''filename'', PStr ''grader.cpp''), (PStr ''digest'', PStr ''d1'')],
                PDict [(PStr ''filename'', PStr ''grader.cpp''), (PStr ''digest'', PStr ''d2'')]]),
      (PStr ''submission_format'', PList []),
      (PStr ''managers'', PList []),
      (PStr ''testcases'', PList [])]"

definition demo_task_built :: pydict where
  "demo_task_built =
     [(PStr ''name'', PStr ''sum''),
      (PStr ''attachments'', PDict [(PStr ''grader.cpp'', PRef 1)]),
      (PStr ''submission_format'', PList []),
      (PStr ''managers'', PDict []),
      (PStr ''testcases'', PList [])]"

definition demo_task_store :: store where
  "demo_task_store =
     [(Attachment, [(PStr ''filename'', PStr ''grader.cpp''), (PStr ''digest'', PStr ''d1'')]),
      (Attachment, [(PStr ''filename'', PStr ''grader.cpp''), (PStr ''digest'', PStr ''d2'')]),
      (Task, demo_task_built)]"

definition demo_ranking :: pydict where
  "demo_ranking =
     [(PStr ''scores'',
         PList [PDict [(PStr ''task'', PInt 0), (PStr ''user'', PStr ''alice''), (PStr ''score'', PInt 10)],
                PDict [(PStr ''task'', PInt 0), (PStr ''user'', PStr ''alice''), (PStr ''score'', PInt 20)]])]"

definition demo_ranking_built :: pydict where
  "demo_ranking_built = [(PStr ''scores'', PDict [(PTuple [PRef 0, PRef 1], PRef 3)])]"

definition demo_ranking_store :: store where
  "demo_ranking_store =
     [(Task, [(PStr ''name'', PStr ''sum'')]), (User, [(PStr ''username'', PStr ''alice'')]),
      (Score, [(PStr ''task'', PRef 0), (PStr ''user'', PRef 1), (PStr ''score'', PInt 10)]),
      (Score, [(PStr ''task'', PRef 0), (PStr ''user'', PRef 1), (PStr ''score'', PInt 20)]),
      (RankingView, demo_ranking_built)]"

definition owns_submissions :: "store \<Rightarrow> pyval \<Rightarrow> bool" where
  "owns_submissions s u \<longleftrightarrow>
     (\<exists>subs. py_getattr s u ''submissions'' = Inr (PList subs) \<and> distinct subs \<and>
        (\<forall>sub \<in> set subs. py_getattr s sub ''user'' = Inr u))"

definition demo_user :: pydict where
  "demo_user =
     [(PStr ''username'', PStr ''alice''), (PStr ''messages'', PList []),
      (PStr ''questions'', PList []), (PStr ''submissions'', PList [PDict (demo_submission 0)])]"

definition demo_contest :: pydict where
  "demo_contest =
     [(PStr ''name'', PStr ''cup''),
      (PStr ''tasks'',
         PList [PDict [(PStr ''name'', PStr ''sum''), (PStr ''attachments'', PList []),
                       (PStr ''submission_format'', PList []), (PStr ''managers'', PList []),
                       (PStr ''testcases'', PList [])]]),
      (PStr ''users'', PList [PDict demo_user]),
      (PStr ''announcements'', PList []),
      (PStr ''ranking_view'', PDict [(PStr ''scores'', PList [PDict (demo_score 0)])])]"

definition demo_contest_built :: pydict where
  "demo_contest_built =
     [(PStr ''name'', PStr ''cup''), (PStr ''tasks'', PList [PRef 0]),
      (PStr ''users'', PList [PRef 2]), (PStr ''announcements'', PList []),
      (PStr ''ranking_view'', PRef 4)]"

definition demo_user_built :: pydict where
  "demo_user_built =
     [(PStr ''username'', PStr ''alice''), (PStr ''messages'', PList []),
      (PStr ''questions'', PList []), (PStr ''submissions'', PList [PRef 1])]"

definition demo_user_store :: store where
  "demo_user_store =
     [(Task,
        [(PStr ''name'', PStr ''sum''), (PStr ''attachments'', PDict []),
         (PStr ''submission_format'', PList []),
         (PStr ''managers'', PDict []), (PStr ''testcases'', PList [])]),
      (Submission,
        [(PStr ''task'', PRef 0), (PStr ''files'', PDict []),
         (PStr ''executables'', PDict []), (PStr ''evaluations'', PList []),
         (PStr ''token'', PNone), (PStr ''user'', PRef 2)]),
      (User, demo_user_built)]"

definition demo_contest_store :: store where
  "demo_contest_store =
     demo_user_store @
     [(Score, [(PStr ''task'', PRef 0), (PStr ''user'', PRef 2)]),
      (RankingView, [(PStr ''scores'', PDict [(PTuple [PRef 0, PRef 2], PRef 3)])]),
      (Contest, demo_contest_built)]"




text \<open>Records that are in order for the import. A field holding a sequence of leaf
  records is in order when it is a list of dictionaries the constructor of the class
  accepts; for a keyed collection each record also has a hashable filename.\<close>

definition leaves_ok :: "requirements \<Rightarrow> cls \<Rightarrow> pydict \<Rightarrow> string \<Rightarrow> bool" where
  "leaves_ok req c data key \<longleftrightarrow>
     (case map_of data (PStr key) of
        Some (PList xs) \<Rightarrow>
          (\<forall>x \<in> set xs. case x of PDict r \<Rightarrow> accepted req c r | _ \<Rightarrow> False)
      | _ \<Rightarrow> False)"

definition named_ok :: "requirements \<Rightarrow> cls \<Rightarrow> pydict \<Rightarrow> string \<Rightarrow> bool" where
  "named_ok req c data key \<longleftrightarrow>
     (case map_of data (PStr key) of
        Some (PList xs) \<Rightarrow>
          (\<forall>x \<in> set xs.
             case x of
               PDict r \<Rightarrow>
                 accepted req c r \<and>
                 (case map_of r (PStr ''filename'') of Some fn \<Rightarrow> hashable fn | None \<Rightarrow> False)
             | _ \<Rightarrow> False)
      | _ \<Rightarrow> False)"

text \<open>A task record is in order when its four owned sequences are and the constructor
  accepts the task; a submission record when its owned sequences are, its token is
  \<^verbatim>\<open>None\<close> or a record the constructor accepts, its task index lies within
  \<open>-n .. n - 1\<close> and the constructor accepts the submission. Repeated filenames are
  not excluded.\<close>

definition task_record_ok :: "requirements \<Rightarrow> pydict \<Rightarrow> bool" where
  "task_record_ok req data \<longleftrightarrow>
     named_ok req Attachment data ''attachments'' \<and>
     leaves_ok req SubmissionFormatElement data ''submission_format'' \<and>
     named_ok req Manager data ''managers'' \<and>
     leaves_ok req Testcase data ''testcases'' \<and>
     accepted req Task data"

definition submission_record_ok :: "requirements \<Rightarrow> nat \<Rightarrow> pydict \<Rightarrow> bool" where
  "submission_record_ok req n data \<longleftrightarrow>
     named_ok req File data ''files'' \<and>
     named_ok req Executable data ''executables'' \<and>
     leaves_ok req Evaluation data ''evaluations'' \<and>
     (case map_of data (PStr ''token'') of
        Some PNone \<Rightarrow> True
      | Some (PDict r) \<Rightarrow> accepted req Token r
      | _ \<Rightarrow> False) \<and>
     (case map_of data (PStr ''task'') of
        Some (PInt t) \<Rightarrow> - int n \<le> t \<and> t < int n
      | _ \<Rightarrow> False) \<and>
     accepted req Submission (setitem data (PStr ''user'') PNone)"

text \<open>A submission record with two files of the same name.\<close>

definition demo_two_files :: pydict where
  "demo_two_files =
     [(PStr ''task'', PInt 0),
      (PStr ''files'',
         PList [PDict [(PStr ''filename'', PStr ''a.cpp''), (PStr ''digest'', PStr ''d1'')],
                PDict [(PStr ''filename'', PStr ''a.cpp''), (PStr ''digest'', PStr ''d2'')]]),
      (PStr ''executables'', PList []),
      (PStr ''evaluations'', PList []),
      (PStr ''token'', PNone)]"

section \<open>The serialized form of a contest\<close>

text \<open>The attributes of an object of a given class, if the reference is to one.\<close>

definition class_attrs :: "cls \<Rightarrow> store \<Rightarrow> pyval \<Rightarrow> pydict option" where
  "class_attrs c s v =
     (case v of
        PRef r \<Rightarrow> if r < length s \<and> fst (s ! r) = c then Some (snd (s ! r)) else None
      | _ \<Rightarrow> None)"















text \<open>
  Serialized graphs that are in order. A record is in order for a class when the
  constructor of the class accepts it and no field name occurs twice; a field holds leaves
  when it is a list of such records; a keyed collection moreover has hashable, pairwise
  distinct filenames (section 3: "filename keys unique within each map").
\<close>

definition wf_record :: "requirements \<Rightarrow> cls \<Rightarrow> pydict \<Rightarrow> bool" where
  "wf_record req c a \<longleftrightarrow> accepted req c a \<and> distinct (map fst a)"














text \<open>A store evolves into another when objects are only added, and of the existing
  ones only submissions change, and only in their \<^verbatim>\<open>user\<close> field (the back-reference
  patch). A serializer is stable_export when it gives the same result on every store the
  present one evolves into.\<close>

definition evolves :: "store \<Rightarrow> store \<Rightarrow> bool" where
  "evolves s s' \<longleftrightarrow>
     length s \<le> length s' \<and>
     (\<forall>r < length s. fst (s' ! r) = fst (s ! r) \<and>
        (snd (s' ! r) = snd (s ! r) \<or>
         fst (s ! r) = Submission \<and>
         (\<exists>u. snd (s' ! r) = setitem (snd (s ! r)) (PStr ''user'') u)))"






section \<open>Basic facts\<close>


lemma andthen_Inl [simp]: "andthen (Inl e) f = Inl e"
  by (simp add: andthen_def)

lemma andthen_Inr [simp]: "andthen (Inr x) f = f x"
  by (simp add: andthen_def)

lemma andthen_eq_Inr: "andthen m f = Inr y \<longleftrightarrow> (\<exists>x. m = Inr x \<and> f x = Inr y)"
  by (cases m) simp_all

lemma andthen_eq_Inl: "andthen m f = Inl e \<longleftrightarrow> m = Inl e \<or> (\<exists>x. m = Inr x \<and> f x = Inl e)"
  by (cases m) simp_all

lemma map_of_setitem: "map_of (setitem d k v) = (map_of d)(k \<mapsto> v)"
  by (induction d) (auto simp: fun_eq_iff)

lemma getitem_setitem: "getitem (setitem d k v) k' = (if k' = k then Inr v else getitem d k')"
  by (simp add: getitem_def map_of_setitem)

lemma fst_set_setitem: "fst ` set (setitem d k v) = insert k (fst ` set d)"
  using arg_cong [OF map_of_setitem, of dom d k v] by (simp add: dom_map_of_conv_image_fst)

lemma getitem_eq_Inr: "getitem d k = Inr v \<longleftrightarrow> map_of d k = Some v"
  by (simp add: getitem_def split: option.splits)

lemma getitem_not_IndexError: "getitem d k \<noteq> Inl IndexError"
  by (simp add: getitem_def split: option.splits)

subsection \<open>Subscripts\<close>

lemma index_seq_IndexError:
  "index_seq xs (PInt t) = Inl IndexError \<longleftrightarrow> t < - int (length xs) \<or> int (length xs) \<le> t"
  by (auto simp: index_seq_def Let_def)

lemma index_seq_nonneg:
  "0 \<le> t \<Longrightarrow> t < int (length xs) \<Longrightarrow> index_seq xs (PInt t) = Inr (xs ! nat t)"
  by (simp add: index_seq_def Let_def)

lemma index_seq_neg:
  "- int (length xs) \<le> t \<Longrightarrow> t < 0 \<Longrightarrow> index_seq xs (PInt t) = Inr (xs ! nat (int (length xs) + t))"
  by (simp add: index_seq_def Let_def add.commute)

lemma subscript_PList [simp]: "subscript (PList xs) i = index_seq xs i"
  by (simp add: subscript_def)

subsection \<open>Objects\<close>

lemma construct_eq_Inr:
  "construct req c data s = Inr (obj, s') \<longleftrightarrow>
     accepted req c data \<and> obj = PRef (length s) \<and> s' = s @ [(c, data)]"
  by (auto simp: construct_def)

lemma construct_eq_Inl:
  "construct req c data s = Inl e \<longleftrightarrow> \<not> accepted req c data \<and> e = TypeError"
  by (auto simp: construct_def)

lemma py_getattr_new:
  "py_getattr (s @ [(c, data)]) (PRef (length s)) name = 
     (case map_of data (PStr name) of None \<Rightarrow> Inl AttributeError | Some x \<Rightarrow> Inr x)"
  by (simp add: py_getattr_def)

lemma py_getattr_old:
  "r < length s \<Longrightarrow> py_getattr (s @ t) (PRef r) name = py_getattr s (PRef r) name"
  by (simp add: py_getattr_def nth_append)

lemma py_getattr_not_IndexError: "py_getattr s v name \<noteq> Inl IndexError"
  by (simp add: py_getattr_def split: pyval.splits option.splits)

lemma find_user_not_IndexError: "find_user s us n \<noteq> Inl IndexError"
  by (induction us) (auto simp: andthen_eq_Inl py_getattr_not_IndexError)

lemma py_iter_eq_Inl: "py_iter v = Inl e \<Longrightarrow> e = TypeError"
  by (auto simp: py_iter_def split: pyval.splits)

lemma get_user_not_IndexError: "get_user s users n \<noteq> Inl IndexError"
  by (auto simp: get_user_def andthen_eq_Inl find_user_not_IndexError dest: py_iter_eq_Inl)

subsection \<open>Score\<close>

lemma score_import_eq_Inr:
  "score_import_from_dict req tasks users data s = Inr (obj, d', s') \<longleftrightarrow>
     (\<exists>i t n u. getitem data (PStr ''task'') = Inr i \<and> subscript tasks i = Inr t \<and>
        getitem data (PStr ''user'') = Inr n \<and> get_user s users n = Inr u \<and>
        d' = setitem (setitem data (PStr ''task'') t) (PStr ''user'') u \<and>
        accepted req Score d' \<and>
        obj = PRef (length s) \<and> s' = s @ [(Score, d')])"
  by (auto simp: score_import_from_dict_def andthen_eq_Inr Let_def getitem_setitem
      construct_eq_Inr)

lemma score_import_IndexError:
  assumes "getitem data (PStr ''task'') = Inr (PInt t)"
  shows "score_import_from_dict req (PList ts) users data s = Inl IndexError \<longleftrightarrow>
     t < - int (length ts) \<or> int (length ts) \<le> t"
  using assms
  by (auto simp: score_import_from_dict_def andthen_eq_Inl Let_def getitem_setitem
      construct_eq_Inl index_seq_IndexError get_user_not_IndexError getitem_not_IndexError)

lemma score_import_task:
  assumes "score_import_from_dict req tasks users data s = Inr (obj, d', s')"
  shows "\<exists>i t. getitem data (PStr ''task'') = Inr i \<and> subscript tasks i = Inr t \<and> py_getattr s' obj ''task'' = Inr t"
  using assms
  by (auto simp: score_import_eq_Inr py_getattr_new map_of_setitem)


subsection \<open>Frames\<close>

lemma framedD: "framed f \<Longrightarrow> f d s = Inr (obj, d', s') \<Longrightarrow> prefix s s' \<and> fresh_in s s' obj"
  by (simp add: framed_def)

lemma fresh_in_mono: "fresh_in s1 s2 v \<Longrightarrow> length s0 \<le> length s1 \<Longrightarrow> length s2 \<le> length s3 \<Longrightarrow> fresh_in s0 s3 v"
  by (auto simp: fresh_in_def split: pyval.splits)

lemma fresh_in_disjoint: "fresh_in s0 s1 v \<Longrightarrow> fresh_in s2 s3 w \<Longrightarrow> length s1 \<le> length s2 \<Longrightarrow> v \<noteq> w"
  by (auto simp: fresh_in_def split: pyval.splits)

lemma py_getattr_prefix:
  "prefix s s' \<Longrightarrow> py_getattr s v name = Inr x \<Longrightarrow> py_getattr s' v name = Inr x"
  by (auto simp: py_getattr_def prefix_def nth_append split: pyval.splits if_splits)

lemma import_each_frame:
  assumes "framed f"
  shows "import_each f xs s = Inr (objs, s') \<Longrightarrow>
     prefix s s' \<and> (\<forall>v \<in> set objs. fresh_in s s' v) \<and> distinct objs \<and> length objs = length xs"
proof (induction xs arbitrary: s objs)
  case Nil
  then show ?case by simp
next
  case (Cons x xs)
  from Cons.prems obtain d obj d' s1 objs' where
    step: "f d s = Inr (obj, d', s1)" and
    rest: "import_each f xs s1 = Inr (objs', s')" and
    objs: "objs = obj # objs'"
    by (auto simp: andthen_eq_Inr)
  from framedD [OF assms step] have f1: "prefix s s1" "fresh_in s s1 obj" by simp_all
  from Cons.IH [OF rest] have f2: "prefix s1 s'" "\<forall>v \<in> set objs'. fresh_in s1 s' v"
    "distinct objs'" "length objs' = length xs" by simp_all
  have len: "length s \<le> length s1" "length s1 \<le> length s'"
    using f1(1) f2(1) by (simp_all add: prefix_length_le)
  have "obj \<notin> set objs'"
    using f1(2) f2(2) fresh_in_disjoint [of s s1 obj s1 s'] by blast
  moreover have "\<forall>v \<in> set objs. fresh_in s s' v"
    using f1(2) f2(2) len objs fresh_in_mono [of s s1 _ s s'] fresh_in_mono [of s1 s' _ s s']
    by auto
  ultimately show ?case
    using f1(1) f2(1) f2(3) f2(4) objs by (auto intro: prefix_order.trans)
qed

lemma import_field_eq_Inr:
  "import_field f key data s = Inr (d', s') \<longleftrightarrow>
     (\<exists>v xs objs. getitem data (PStr key) = Inr v \<and> py_iter v = Inr xs \<and>
        import_each f xs s = Inr (objs, s') \<and> d' = setitem data (PStr key) (PList objs))"
  by (auto simp: import_field_def andthen_eq_Inr)

lemma key_field_eq_Inr:
  "key_field kf key data s = Inr d' \<longleftrightarrow>
     (\<exists>v objs ps m. getitem data (PStr key) = Inr v \<and> py_iter v = Inr objs \<and>
        key_pairs kf s objs = Inr ps \<and> py_dict ps = Inr m \<and>
        d' = setitem data (PStr key) (PDict m))"
  by (auto simp: key_field_def andthen_eq_Inr)

lemma basic_import_eq_Inr:
  "basic_import_from_dict req c data s = Inr (obj, d', s') \<longleftrightarrow>
     accepted req c data \<and> obj = PRef (length s) \<and> d' = data \<and> s' = s @ [(c, data)]"
  by (auto simp: basic_import_from_dict_def andthen_eq_Inr construct_eq_Inr)

lemma framed_basic: "framed (basic_import_from_dict req c)"
  by (auto simp: framed_def basic_import_eq_Inr fresh_in_def)

lemma framed_score: "framed (score_import_from_dict req tasks users)"
  by (auto simp: framed_def score_import_eq_Inr fresh_in_def)

lemma import_field_frame:
  "framed f \<Longrightarrow> import_field f key data s = Inr (d', s') \<Longrightarrow> prefix s s'"
  by (auto simp: import_field_eq_Inr dest: import_each_frame)

lemma import_keyed_eq_Inr:
  "import_keyed req c key data s = Inr (d', s') \<longleftrightarrow>
     (\<exists>d1. import_field (basic_import_from_dict req c) key data s = Inr (d1, s') \<and>
        key_field filename_of key d1 s' = Inr d')"
  by (auto simp: import_keyed_def andthen_eq_Inr)

lemma import_keyed_frame: "import_keyed req c key data s = Inr (d', s') \<Longrightarrow> prefix s s'"
  by (auto simp: import_keyed_eq_Inr dest: import_field_frame [OF framed_basic])

lemma import_token_frame: "import_token req data s = Inr (d', s') \<Longrightarrow> prefix s s'"
  by (auto simp: import_token_def andthen_eq_Inr basic_import_eq_Inr split: if_splits)

lemma submission_owned_frame: "submission_owned req data s = Inr (d', s') \<Longrightarrow> prefix s s'"
  unfolding submission_owned_def
  by (auto simp: andthen_eq_Inr dest!: import_keyed_frame import_token_frame
      import_field_frame [OF framed_basic] intro: prefix_order.trans)

lemma submission_import_eq_Inr:
  "submission_import_from_dict req tasks data s = Inr (obj, d', s') \<longleftrightarrow>
     (\<exists>d1 s1 i t. submission_owned req data s = Inr (d1, s1) \<and>
        getitem d1 (PStr ''task'') = Inr i \<and> subscript tasks i = Inr t \<and>
        d' = setitem (setitem d1 (PStr ''task'') t) (PStr ''user'') PNone \<and>
        accepted req Submission d' \<and>
        obj = PRef (length s1) \<and> s' = s1 @ [(Submission, d')])"
  by (auto simp: submission_import_from_dict_def andthen_eq_Inr Let_def
      construct_eq_Inr)

lemma framed_submission: "framed (submission_import_from_dict req tasks)"
  by (auto simp: framed_def submission_import_eq_Inr fresh_in_def prefix_length_le
      dest!: submission_owned_frame intro: prefix_order.trans)

lemma task_import_eq_Inr:
  "task_import_from_dict req data s = Inr (obj, d', s') \<longleftrightarrow>
     (\<exists>d1 s1 d2 s2 d3 s3 s4.
        import_keyed req Attachment ''attachments'' data s = Inr (d1, s1) \<and>
        import_field (basic_import_from_dict req SubmissionFormatElement) ''submission_format'' d1 s1 = Inr (d2, s2) \<and>
        import_keyed req Manager ''managers'' d2 s2 = Inr (d3, s3) \<and>
        import_field (basic_import_from_dict req Testcase) ''testcases'' d3 s3 = Inr (d', s4) \<and>
        accepted req Task d' \<and>
        obj = PRef (length s4) \<and> s' = s4 @ [(Task, d')])"
  by (auto simp: task_import_from_dict_def andthen_eq_Inr construct_eq_Inr)

lemma framed_task: "framed (task_import_from_dict req)"
  unfolding framed_def
proof (intro allI impI)
  fix d s obj d' s'
  assume "task_import_from_dict req d s = Inr (obj, d', s')"
  then obtain d1 s1 d2 s2 d3 s3 s4 where
    a: "import_keyed req Attachment ''attachments'' d s = Inr (d1, s1)" and
    b: "import_field (basic_import_from_dict req SubmissionFormatElement) ''submission_format'' d1 s1 = Inr (d2, s2)" and
    c: "import_keyed req Manager ''managers'' d2 s2 = Inr (d3, s3)" and
    e: "import_field (basic_import_from_dict req Testcase) ''testcases'' d3 s3 = Inr (d', s4)" and
    r: "obj = PRef (length s4)" "s' = s4 @ [(Task, d')]"
    by (auto simp: task_import_eq_Inr)
  have "prefix s s1" "prefix s1 s2" "prefix s2 s3" "prefix s3 s4"
    using a b c e import_keyed_frame import_field_frame [OF framed_basic] by blast+
  then have p: "prefix s s4"
    by (meson prefix_order.trans)
  then have "length s \<le> length s4"
    by (rule prefix_length_le)
  with p r show "prefix s s' \<and> fresh_in s s' obj"
    by (simp add: fresh_in_def prefix_def) auto
qed


subsection \<open>No IndexError outside subscripts; untouched keys\<close>

lemma as_record_eq_Inl: "as_record v = Inl e \<Longrightarrow> e = TypeError"
  by (auto simp: as_record_def split: pyval.splits)

lemma basic_import_eq_Inl: "basic_import_from_dict req c d s = Inl e \<Longrightarrow> e = TypeError"
  by (auto simp: basic_import_from_dict_def andthen_eq_Inl construct_eq_Inl)

lemma import_each_basic_not_IndexError: "import_each (basic_import_from_dict req c) xs s \<noteq> Inl IndexError"
  by (induction xs arbitrary: s)
     (auto simp: andthen_eq_Inl dest: as_record_eq_Inl basic_import_eq_Inl)

lemma import_field_basic_not_IndexError:
  "import_field (basic_import_from_dict req c) key data s \<noteq> Inl IndexError"
  by (auto simp: import_field_def andthen_eq_Inl getitem_not_IndexError
      import_each_basic_not_IndexError dest: py_iter_eq_Inl)

lemma key_pairs_filename_not_IndexError: "key_pairs filename_of s xs \<noteq> Inl IndexError"
  by (induction xs) (auto simp: andthen_eq_Inl filename_of_def py_getattr_not_IndexError)

lemma dict_from_eq_Inl: "dict_from d ps = Inl e \<Longrightarrow> e = TypeError"
  by (induction d ps rule: dict_from.induct) (auto split: if_splits)

lemma key_field_filename_not_IndexError: "key_field filename_of key data s \<noteq> Inl IndexError"
  by (auto simp: key_field_def andthen_eq_Inl getitem_not_IndexError py_dict_def
      key_pairs_filename_not_IndexError dest: py_iter_eq_Inl dict_from_eq_Inl)

lemma import_keyed_not_IndexError: "import_keyed req c key data s \<noteq> Inl IndexError"
  by (auto simp: import_keyed_def andthen_eq_Inl import_field_basic_not_IndexError
      key_field_filename_not_IndexError)

lemma import_token_not_IndexError: "import_token req data s \<noteq> Inl IndexError"
  by (auto simp: import_token_def andthen_eq_Inl getitem_not_IndexError
      dest: as_record_eq_Inl basic_import_eq_Inl)

lemma submission_owned_not_IndexError: "submission_owned req data s \<noteq> Inl IndexError"
  by (auto simp: submission_owned_def andthen_eq_Inl import_keyed_not_IndexError
      import_field_basic_not_IndexError import_token_not_IndexError)

lemma import_field_other_key:
  "import_field f key data s = Inr (d', s') \<Longrightarrow> k \<noteq> PStr key \<Longrightarrow> getitem d' k = getitem data k"
  by (auto simp: import_field_eq_Inr getitem_setitem)

lemma key_field_other_key:
  "key_field kf key data s = Inr d' \<Longrightarrow> k \<noteq> PStr key \<Longrightarrow> getitem d' k = getitem data k"
  by (auto simp: key_field_eq_Inr getitem_setitem)

lemma import_keyed_other_key:
  "import_keyed req c key data s = Inr (d', s') \<Longrightarrow> k \<noteq> PStr key \<Longrightarrow> getitem d' k = getitem data k"
  by (metis import_keyed_eq_Inr import_field_other_key key_field_other_key)

lemma import_token_other_key:
  "import_token req data s = Inr (d', s') \<Longrightarrow> k \<noteq> PStr ''token'' \<Longrightarrow> getitem d' k = getitem data k"
  by (auto simp: import_token_def andthen_eq_Inr getitem_setitem split: if_splits)

lemma submission_owned_task_key:
  assumes "submission_owned req data s = Inr (d', s')"
  shows "getitem d' (PStr ''task'') = getitem data (PStr ''task'')"
proof -
  from assms obtain d1 s1 d2 s2 d3 s3 where
    a: "import_keyed req File ''files'' data s = Inr (d1, s1)" and
    b: "import_keyed req Executable ''executables'' d1 s1 = Inr (d2, s2)" and
    c: "import_field (basic_import_from_dict req Evaluation) ''evaluations'' d2 s2 = Inr (d3, s3)" and
    e: "import_token req d3 s3 = Inr (d', s')"
    by (auto simp: submission_owned_def andthen_eq_Inr)
  have "getitem d' (PStr ''task'') = getitem d3 (PStr ''task'')"
    using import_token_other_key [OF e] by simp
  also have "\<dots> = getitem d2 (PStr ''task'')"
    using import_field_other_key [OF c] by simp
  also have "\<dots> = getitem d1 (PStr ''task'')"
    using import_keyed_other_key [OF b] by simp
  also have "\<dots> = getitem data (PStr ''task'')"
    using import_keyed_other_key [OF a] by simp
  finally show ?thesis .
qed

lemma submission_import_IndexError:
  assumes "getitem data (PStr ''task'') = Inr (PInt t)"
  shows "submission_import_from_dict req (PList ts) data s = Inl IndexError \<longleftrightarrow>
     (\<exists>d1 s1. submission_owned req data s = Inr (d1, s1)) \<and>
     (t < - int (length ts) \<or> int (length ts) \<le> t)"
  using assms
  by (auto simp: submission_import_from_dict_def andthen_eq_Inl Let_def
      submission_owned_not_IndexError submission_owned_task_key
      construct_eq_Inl index_seq_IndexError getitem_not_IndexError)

lemma submission_import_task:
  assumes "submission_import_from_dict req tasks data s = Inr (obj, d', s')"
  shows "\<exists>i t. getitem data (PStr ''task'') = Inr i \<and> subscript tasks i = Inr t \<and>
     py_getattr s' obj ''task'' = Inr t \<and> py_getattr s' obj ''user'' = Inr PNone"
  using assms
  by (auto simp: submission_import_eq_Inr py_getattr_new map_of_setitem submission_owned_task_key)


lemmas eval_defs = andthen_def getitem_def subscript_def index_seq_def py_iter_def as_record_def
  accepted_def construct_def py_getattr_def py_setattr_def py_dict_def basic_import_from_dict_def
  import_field_def key_field_def filename_of_def import_keyed_def task_import_from_dict_def
  import_token_def submission_owned_def submission_import_from_dict_def get_user_def
  score_import_from_dict_def rankingview_keyfunc_def rankingview_import_from_dict_def
  user_import_from_dict_def contest_import_from_dict_def Let_def

lemma demo_score_run:
  "score_import_from_dict demo_req (PList [PRef 0]) (PList [PRef 1]) (demo_score t) demo_store =
     (if t = 0 \<or> t = - 1 then
        Inr (PRef 2, [(PStr ''task'', PRef 0), (PStr ''user'', PRef 1)],
          demo_store @ [(Score, [(PStr ''task'', PRef 0), (PStr ''user'', PRef 1)])])
      else Inl IndexError)"
  by (auto simp: eval_defs demo_store_def demo_score_def)

lemma demo_submission_owned:
  "submission_owned demo_req (demo_submission t) demo_store =
     Inr ([(PStr ''task'', PInt t), (PStr ''files'', PDict []),
     (PStr ''executables'', PDict []), (PStr ''evaluations'', PList []), (PStr ''token'', PNone)], demo_store)"
  by (simp add: eval_defs demo_store_def demo_submission_def)

lemma demo_submission_run:
  "submission_import_from_dict demo_req (PList [PRef 0]) (demo_submission t) demo_store =
     (if t = 0 \<or> t = - 1 then
        Inr (PRef 2, [(PStr ''task'', PRef 0), (PStr ''files'', PDict []),
            (PStr ''executables'', PDict []), (PStr ''evaluations'', PList []),
            (PStr ''token'', PNone), (PStr ''user'', PNone)],
          demo_store @ [(Submission, [(PStr ''task'', PRef 0), (PStr ''files'', PDict []),
            (PStr ''executables'', PDict []), (PStr ''evaluations'', PList []),
            (PStr ''token'', PNone), (PStr ''user'', PNone)])])
      else Inl IndexError)"
  by (auto simp: eval_defs demo_store_def demo_submission_def)

section \<open>Positional resolution of the task reference\<close>

text \<open>
  Claim C3, as the code has it. For a submission record and for a score record whose
  \<^verbatim>\<open>task\<close> field is the integer \<open>t\<close>, resolved against a task sequence of \<open>n\<close>
  tasks by \<^verbatim>\<open>tasks[data['task']]\<close>: the import raises \<^verbatim>\<open>IndexError\<close> (the spec's
  BrokenReference) if and only if \<open>t < -n\<close> or \<open>n \<le> t\<close> (for a submission, once the
  sub-trees it owns are built, which comes first); otherwise the entity's task reference
  is the task at position \<open>t\<close> when \<open>0 \<le> t\<close>, and at position \<open>n + t\<close> when \<open>t < 0\<close>.
\<close>

theorem task_resolution:
  assumes "getitem data (PStr ''task'') = Inr (PInt t)"
  shows "(score_import_from_dict req (PList ts) users data s = Inl IndexError \<longleftrightarrow>
            t < - int (length ts) \<or> int (length ts) \<le> t) \<and>
         (submission_import_from_dict req (PList ts) data s = Inl IndexError \<longleftrightarrow>
            (\<exists>d1 s1. submission_owned req data s = Inr (d1, s1)) \<and>
            (t < - int (length ts) \<or> int (length ts) \<le> t)) \<and>
         (\<forall>obj d' s'.
            score_import_from_dict req (PList ts) users data s = Inr (obj, d', s') \<or>
            submission_import_from_dict req (PList ts) data s = Inr (obj, d', s') \<longrightarrow>
            py_getattr s' obj ''task'' =
              Inr (ts ! nat (if t < 0 then int (length ts) + t else t)))"
proof (intro conjI allI impI)
  show "score_import_from_dict req (PList ts) users data s = Inl IndexError \<longleftrightarrow>
            t < - int (length ts) \<or> int (length ts) \<le> t"
    by (rule score_import_IndexError [OF assms])
  show "submission_import_from_dict req (PList ts) data s = Inl IndexError \<longleftrightarrow>
            (\<exists>d1 s1. submission_owned req data s = Inr (d1, s1)) \<and>
            (t < - int (length ts) \<or> int (length ts) \<le> t)"
    by (rule submission_import_IndexError [OF assms])
next
  fix obj d' s'
  assume "score_import_from_dict req (PList ts) users data s = Inr (obj, d', s') \<or>
          submission_import_from_dict req (PList ts) data s = Inr (obj, d', s')"
  then have "\<exists>i x. getitem data (PStr ''task'') = Inr i \<and> subscript (PList ts) i = Inr x \<and>
     py_getattr s' obj ''task'' = Inr x"
    using score_import_task submission_import_task by blast
  with assms obtain x where r: "index_seq ts (PInt t) = Inr x" "py_getattr s' obj ''task'' = Inr x"
    by auto
  have "\<not> (t < - int (length ts) \<or> int (length ts) \<le> t)"
    using r(1) index_seq_IndexError [of ts t] by simp
  then have "index_seq ts (PInt t) = Inr (ts ! nat (if t < 0 then int (length ts) + t else t))"
    using index_seq_neg [of ts t] index_seq_nonneg [of t ts] by (cases "t < 0") simp_all
  with r show "py_getattr s' obj ''task'' = Inr (ts ! nat (if t < 0 then int (length ts) + t else t))"
    by simp
qed

theorem task_resolution_witness:
  "getitem (demo_score 0) (PStr ''task'') = Inr (PInt 0) \<and>
   score_import_from_dict demo_req (PList [PRef 0]) (PList [PRef 1]) (demo_score 0) demo_store \<noteq> Inl IndexError \<and>
   py_getattr (demo_store @ [(Score, [(PStr ''task'', PRef 0), (PStr ''user'', PRef 1)])])
     (PRef 2) ''task'' = Inr (PRef 0)"
proof -
  have h: "getitem (demo_score 0) (PStr ''task'') = Inr (PInt 0)"
    by (simp add: demo_score_def getitem_def)
  show ?thesis
    using h task_resolution [OF h, of demo_req "[PRef 0]" "PList [PRef 1]" demo_store] demo_score_run [of 0]
    by simp
qed

text \<open>
  Read with positions \<open>0 .. n - 1\<close> as the only ones in bounds, claim C3 fails: with
  one task, the index \<open>-1\<close> is not rejected, the score is built and refers to task 0.
\<close>

theorem task_resolution_counterexample:
  "score_import_from_dict demo_req (PList [PRef 0]) (PList [PRef 1])
     [(PStr ''task'', PInt (- 1)), (PStr ''user'', PStr ''alice'')]
     [(Task, [(PStr ''name'', PStr ''sum'')]), (User, [(PStr ''username'', PStr ''alice'')])] =
   Inr (PRef 2, [(PStr ''task'', PRef 0), (PStr ''user'', PRef 1)],
     [(Task, [(PStr ''name'', PStr ''sum'')]), (User, [(PStr ''username'', PStr ''alice'')]),
      (Score, [(PStr ''task'', PRef 0), (PStr ''user'', PRef 1)])])"
  using demo_score_run [of "- 1"] by (simp add: demo_score_def demo_store_def)

subsection \<open>Looking a user up\<close>

lemma score_import_user:
  assumes "score_import_from_dict req tasks users data s = Inr (obj, d', s')"
  shows "\<exists>n u. getitem data (PStr ''user'') = Inr n \<and> get_user s users n = Inr u \<and>
     py_getattr s' obj ''user'' = Inr u"
  using assms
  by (auto simp: score_import_eq_Inr py_getattr_new map_of_setitem)

lemma score_import_resolved:
  assumes "getitem data (PStr ''task'') = Inr i" "subscript tasks i = Inr t"
    "getitem data (PStr ''user'') = Inr n"
  shows "score_import_from_dict req tasks users data s =
     andthen (get_user s users n) (\<lambda>u.
       andthen (construct req Score (setitem (setitem data (PStr ''task'') t) (PStr ''user'') u) s)
         (\<lambda>(obj, s'). Inr (obj, setitem (setitem data (PStr ''task'') t) (PStr ''user'') u, s')))"
  using assms by (simp add: score_import_from_dict_def Let_def getitem_setitem)

subsection \<open>Entries a submission's owned sub-trees leave alone\<close>


subsection \<open>Dictionaries built from pairs\<close>

lemma distinct_setitem: "distinct (map fst d) \<Longrightarrow> distinct (map fst (setitem d k v))"
  by (induction d) (auto simp: fst_set_setitem)

lemma dict_from_eq_Inr:
  "dict_from d ps = Inr m \<Longrightarrow>
     map_of m = map_of d ++ map_of (rev ps) \<and> (distinct (map fst d) \<longrightarrow> distinct (map fst m))"
proof (induction d ps rule: dict_from.induct)
  case (1 d)
  then show ?case by simp
next
  case (2 d k v ps)
  then have h: "hashable k" and r: "dict_from (setitem d k v) ps = Inr m"
    by (auto split: if_splits)
  from "2.IH" [OF h r] show ?case
    by (auto simp: map_of_setitem distinct_setitem fun_eq_iff map_add_def split: option.splits)
qed

lemma dict_from_succeeds:
  "(\<exists>m. dict_from d ps = Inr m) \<longleftrightarrow> (\<forall>k \<in> fst ` set ps. hashable k)"
  by (induction d ps rule: dict_from.induct) auto

lemma py_dict_eq_Inr:
  "py_dict ps = Inr m \<Longrightarrow> map_of m = map_of (rev ps) \<and> distinct (map fst m)"
  using dict_from_eq_Inr [of "[]" ps m] by (simp add: py_dict_def)

lemma map_of_rev_last:
  "map_of (rev ps) k = Some v \<longleftrightarrow>
     (\<exists>i < length ps. ps ! i = (k, v) \<and> (\<forall>j. i < j \<and> j < length ps \<longrightarrow> fst (ps ! j) \<noteq> k))"
proof (induction ps rule: rev_induct)
  case Nil
  then show ?case by simp
next
  case (snoc p ps)
  show ?case
  proof (cases "fst p = k")
    case True
    have "(\<exists>i < length (ps @ [p]). (ps @ [p]) ! i = (k, v) \<and>
            (\<forall>j. i < j \<and> j < length (ps @ [p]) \<longrightarrow> fst ((ps @ [p]) ! j) \<noteq> k)) \<longleftrightarrow> snd p = v"
    proof
      assume "\<exists>i < length (ps @ [p]). (ps @ [p]) ! i = (k, v) \<and>
            (\<forall>j. i < j \<and> j < length (ps @ [p]) \<longrightarrow> fst ((ps @ [p]) ! j) \<noteq> k)"
      then obtain i where i: "i < length (ps @ [p])" "(ps @ [p]) ! i = (k, v)"
        "\<forall>j. i < j \<and> j < length (ps @ [p]) \<longrightarrow> fst ((ps @ [p]) ! j) \<noteq> k"
        by blast
      have "i = length ps"
      proof (rule ccontr)
        assume "i \<noteq> length ps"
        with i(1) have "i < length ps" by simp
        with i(3) have "fst ((ps @ [p]) ! length ps) \<noteq> k"
          by (elim allE [of _ "length ps"]) simp
        with True show False by simp
      qed
      with i(2) show "snd p = v" by simp
    next
      assume "snd p = v"
      with True have "(ps @ [p]) ! length ps = (k, v)"
        by (cases p) simp
      then have "length ps < length (ps @ [p]) \<and> (ps @ [p]) ! length ps = (k, v) \<and>
            (\<forall>j. length ps < j \<and> j < length (ps @ [p]) \<longrightarrow> fst ((ps @ [p]) ! j) \<noteq> k)"
        by auto
      then show "\<exists>i < length (ps @ [p]). (ps @ [p]) ! i = (k, v) \<and>
            (\<forall>j. i < j \<and> j < length (ps @ [p]) \<longrightarrow> fst ((ps @ [p]) ! j) \<noteq> k)"
        by blast
    qed
    with True show ?thesis
      by (cases p) auto
  next
    case False
    have "(\<exists>i < length (ps @ [p]). (ps @ [p]) ! i = (k, v) \<and>
            (\<forall>j. i < j \<and> j < length (ps @ [p]) \<longrightarrow> fst ((ps @ [p]) ! j) \<noteq> k)) \<longleftrightarrow>
          (\<exists>i < length ps. ps ! i = (k, v) \<and> (\<forall>j. i < j \<and> j < length ps \<longrightarrow> fst (ps ! j) \<noteq> k))"
      (is "?L \<longleftrightarrow> ?R")
    proof
      assume ?L
      then obtain i where i: "i < length (ps @ [p])" "(ps @ [p]) ! i = (k, v)"
        "\<forall>j. i < j \<and> j < length (ps @ [p]) \<longrightarrow> fst ((ps @ [p]) ! j) \<noteq> k"
        by blast
      have il: "i < length ps"
      proof (rule ccontr)
        assume "\<not> i < length ps"
        with i(1) have "i = length ps" by simp
        with i(2) False show False by simp
      qed
      have "\<forall>j. i < j \<and> j < length ps \<longrightarrow> fst (ps ! j) \<noteq> k"
      proof (intro allI impI)
        fix j assume j: "i < j \<and> j < length ps"
        with i(3) have "fst ((ps @ [p]) ! j) \<noteq> k" by simp
        with j show "fst (ps ! j) \<noteq> k" by (simp add: nth_append)
      qed
      moreover from il i(2) have "ps ! i = (k, v)"
        by (simp add: nth_append)
      ultimately show ?R
        using il by blast
    next
      assume ?R
      then obtain i where i: "i < length ps" "ps ! i = (k, v)"
        "\<forall>j. i < j \<and> j < length ps \<longrightarrow> fst (ps ! j) \<noteq> k"
        by blast
      have "\<forall>j. i < j \<and> j < length (ps @ [p]) \<longrightarrow> fst ((ps @ [p]) ! j) \<noteq> k"
      proof (intro allI impI)
        fix j assume j: "i < j \<and> j < length (ps @ [p])"
        show "fst ((ps @ [p]) ! j) \<noteq> k"
        proof (cases "j < length ps")
          case True
          with i(3) j show ?thesis by (simp add: nth_append)
        next
          case False
          with j have "j = length ps" by simp
          with \<open>fst p \<noteq> k\<close> show ?thesis by simp
        qed
      qed
      moreover from i(1,2) have "i < length (ps @ [p])" "(ps @ [p]) ! i = (k, v)"
        by (simp_all add: nth_append)
      ultimately show ?L
        by blast
    qed
    with False snoc.IH show ?thesis
      by (cases p) auto
  qed
qed

lemma key_pairs_eq_Inr:
  "key_pairs kf s xs = Inr ps \<longleftrightarrow>
     length ps = length xs \<and> (\<forall>i < length xs. kf s (xs ! i) = Inr (fst (ps ! i)) \<and> snd (ps ! i) = xs ! i)"
proof (induction xs arbitrary: ps)
  case Nil
  then show ?case by auto
next
  case (Cons x xs)
  show ?case
  proof (cases ps)
    case Nil
    then show ?thesis by (auto simp: andthen_eq_Inr)
  next
    case (Cons p ps')
    have "key_pairs kf s (x # xs) = Inr (p # ps') \<longleftrightarrow>
       kf s x = Inr (fst p) \<and> snd p = x \<and> key_pairs kf s xs = Inr ps'"
      by (cases p) (auto simp: andthen_eq_Inr)
    also have "\<dots> \<longleftrightarrow> length (p # ps') = length (x # xs) \<and>
       (\<forall>i < length (x # xs). kf s ((x # xs) ! i) = Inr (fst ((p # ps') ! i)) \<and>
          snd ((p # ps') ! i) = (x # xs) ! i)"
      by (auto simp: Cons.IH nth_Cons split: nat.splits)
    finally show ?thesis
      using Cons by simp
  qed
qed

subsection \<open>Building leaf objects from a list of records\<close>

lemma import_each_basic_result:
  "import_each (basic_import_from_dict req c) xs s = Inr (objs, s') \<Longrightarrow>
     \<exists>rs. xs = map PDict rs \<and> (\<forall>r \<in> set rs. accepted req c r) \<and>
        length objs = length rs \<and> (\<forall>i < length rs. objs ! i = PRef (length s + i)) \<and>
        s' = s @ map (Pair c) rs"
proof (induction xs arbitrary: s objs)
  case Nil
  then show ?case by auto
next
  case (Cons x xs)
  from Cons.prems obtain r objs' where
    x: "x = PDict r" and k: "accepted req c r" and
    rest: "import_each (basic_import_from_dict req c) xs (s @ [(c, r)]) = Inr (objs', s')" and
    objs: "objs = PRef (length s) # objs'"
    by (auto simp: andthen_eq_Inr basic_import_eq_Inr as_record_def split: pyval.splits)
  from Cons.IH [OF rest] obtain rs where rs: "xs = map PDict rs"
    "\<forall>r \<in> set rs. accepted req c r" "length objs' = length rs"
    "\<forall>i < length rs. objs' ! i = PRef (length (s @ [(c, r)]) + i)"
    "s' = (s @ [(c, r)]) @ map (Pair c) rs"
    by blast
  have "\<forall>i < length (r # rs). objs ! i = PRef (length s + i)"
    using objs rs(4) by (auto simp: nth_Cons split: nat.splits)
  with x k rs objs have "x # xs = map PDict (r # rs) \<and>
      (\<forall>r' \<in> set (r # rs). accepted req c r') \<and>
      length objs = length (r # rs) \<and> (\<forall>i < length (r # rs). objs ! i = PRef (length s + i)) \<and>
      s' = s @ map (Pair c) (r # rs)"
    by simp
  then show ?case
    by (rule exI)
qed

lemma import_each_basic_succeeds:
  "\<forall>r \<in> set rs. accepted req c r \<Longrightarrow>
     \<exists>objs. import_each (basic_import_from_dict req c) (map PDict rs) s = Inr (objs, s @ map (Pair c) rs)"
proof (induction rs arbitrary: s)
  case Nil
  then show ?case by simp
next
  case (Cons r rs)
  then have "basic_import_from_dict req c r s = Inr (PRef (length s), r, s @ [(c, r)])"
    by (simp add: basic_import_eq_Inr)
  moreover from Cons obtain objs where
    "import_each (basic_import_from_dict req c) (map PDict rs) (s @ [(c, r)]) =
       Inr (objs, (s @ [(c, r)]) @ map (Pair c) rs)"
    by fastforce
  ultimately show ?case
    by (simp add: as_record_def)
qed


subsection \<open>Collections keyed by filename\<close>

lemma setitem_setitem: "setitem (setitem d k v) k w = setitem d k w"
  by (induction d) auto

lemma filename_of_new:
  "i < length rs \<Longrightarrow>
     filename_of (s @ map (Pair c) rs) (PRef (length s + i)) =
       (case map_of (rs ! i) (PStr ''filename'') of None \<Rightarrow> Inl AttributeError | Some x \<Rightarrow> Inr x)"
  by (simp add: filename_of_def py_getattr_def nth_append)

lemma import_keyed_result:
  assumes "import_keyed req c key data s = Inr (d', s')"
    and "getitem data (PStr key) = Inr (PList recs)"
  shows "\<exists>rs ps m. recs = map PDict rs \<and> s' = s @ map (Pair c) rs \<and>
     length ps = length rs \<and>
     (\<forall>i < length rs. ps ! i = (the (map_of (rs ! i) (PStr ''filename'')), PRef (length s + i)) \<and>
        map_of (rs ! i) (PStr ''filename'') \<noteq> None) \<and>
     d' = setitem data (PStr key) (PDict m) \<and>
     map_of m = map_of (rev ps) \<and> distinct (map fst m)"
proof -
  from assms obtain objs ps m where
    e: "import_each (basic_import_from_dict req c) recs s = Inr (objs, s')" and
    kp: "key_pairs filename_of s' objs = Inr ps" and
    m: "py_dict ps = Inr m" and
    d': "d' = setitem (setitem data (PStr key) (PList objs)) (PStr key) (PDict m)"
    by (auto simp: import_keyed_eq_Inr import_field_eq_Inr key_field_eq_Inr py_iter_def
        getitem_setitem)
  from import_each_basic_result [OF e] obtain rs where
    rs: "recs = map PDict rs" "length objs = length rs"
    "\<forall>i < length rs. objs ! i = PRef (length s + i)" "s' = s @ map (Pair c) rs"
    by blast
  from kp have lp: "length ps = length objs"
    and pk: "\<forall>i < length objs. filename_of s' (objs ! i) = Inr (fst (ps ! i)) \<and> snd (ps ! i) = objs ! i"
    by (simp_all add: key_pairs_eq_Inr)
  have "\<forall>i < length rs. ps ! i = (the (map_of (rs ! i) (PStr ''filename'')), PRef (length s + i)) \<and>
        map_of (rs ! i) (PStr ''filename'') \<noteq> None"
  proof (intro allI impI)
    fix i assume i: "i < length rs"
    with pk rs have "filename_of (s @ map (Pair c) rs) (PRef (length s + i)) = Inr (fst (ps ! i))"
      "snd (ps ! i) = PRef (length s + i)"
      by auto
    with i show "ps ! i = (the (map_of (rs ! i) (PStr ''filename'')), PRef (length s + i)) \<and>
        map_of (rs ! i) (PStr ''filename'') \<noteq> None"
      by (cases "ps ! i") (auto simp: filename_of_new split: option.splits)
  qed
  with rs lp d' py_dict_eq_Inr [OF m] show ?thesis
    by (intro exI [of _ rs] exI [of _ ps] exI [of _ m]) (simp add: setitem_setitem)
qed

lemma import_keyed_binding:
  assumes "import_keyed req c key data s = Inr (d', s')"
    and "getitem data (PStr key) = Inr (PList recs)"
  shows "\<exists>m. getitem d' (PStr key) = Inr (PDict m) \<and> distinct (map fst m) \<and>
     length s' = length s + length recs \<and>
     (\<forall>j < length recs. \<exists>r. recs ! j = PDict r \<and> s' ! (length s + j) = (c, r)) \<and>
     (\<forall>fn v. map_of m fn = Some v \<longleftrightarrow>
        (\<exists>j r. j < length recs \<and> recs ! j = PDict r \<and> v = PRef (length s + j) \<and>
           map_of r (PStr ''filename'') = Some fn \<and>
           (\<forall>l r'. j < l \<and> l < length recs \<and> recs ! l = PDict r' \<longrightarrow>
              map_of r' (PStr ''filename'') \<noteq> Some fn)))"
proof -
  from import_keyed_result [OF assms] obtain rs ps m where
    rs: "recs = map PDict rs" "s' = s @ map (Pair c) rs" and
    lp: "length ps = length rs" and
    ps: "\<forall>i < length rs. ps ! i = (the (map_of (rs ! i) (PStr ''filename'')), PRef (length s + i)) \<and>
        map_of (rs ! i) (PStr ''filename'') \<noteq> None" and
    d': "d' = setitem data (PStr key) (PDict m)" and
    m: "map_of m = map_of (rev ps)" "distinct (map fst m)"
    by blast
  have fst_ps: "fst (ps ! i) = fn \<longleftrightarrow> map_of (rs ! i) (PStr ''filename'') = Some fn"
    if "i < length rs" for i fn
    using ps that by auto
  have "map_of m fn = Some v \<longleftrightarrow>
        (\<exists>j r. j < length recs \<and> recs ! j = PDict r \<and> v = PRef (length s + j) \<and>
           map_of r (PStr ''filename'') = Some fn \<and>
           (\<forall>l r'. j < l \<and> l < length recs \<and> recs ! l = PDict r' \<longrightarrow>
              map_of r' (PStr ''filename'') \<noteq> Some fn))" (is "?L \<longleftrightarrow> ?R") for fn v
  proof
    assume ?L
    then obtain j where j: "j < length ps" "ps ! j = (fn, v)"
      "\<forall>l. j < l \<and> l < length ps \<longrightarrow> fst (ps ! l) \<noteq> fn"
      unfolding m map_of_rev_last by blast
    have "map_of (rs ! j) (PStr ''filename'') = Some fn" "v = PRef (length s + j)"
      using j(1,2) lp ps by auto
    moreover have "\<forall>l r'. j < l \<and> l < length recs \<and> recs ! l = PDict r' \<longrightarrow>
              map_of r' (PStr ''filename'') \<noteq> Some fn"
      using j(3) lp rs(1) fst_ps by auto
    ultimately show ?R
      using j(1) lp rs(1) by auto
  next
    assume ?R
    then obtain j r where jr: "j < length recs" "recs ! j = PDict r" "v = PRef (length s + j)"
      "map_of r (PStr ''filename'') = Some fn"
      "\<forall>l r'. j < l \<and> l < length recs \<and> recs ! l = PDict r' \<longrightarrow>
              map_of r' (PStr ''filename'') \<noteq> Some fn"
      by blast
    have j: "j < length rs" "v = PRef (length s + j)"
      "map_of (rs ! j) (PStr ''filename'') = Some fn"
      using jr(1-4) rs(1) by auto
    have j4: "\<forall>l. j < l \<and> l < length rs \<longrightarrow> map_of (rs ! l) (PStr ''filename'') \<noteq> Some fn"
    proof (intro allI impI)
      fix l assume l: "j < l \<and> l < length rs"
      then have "recs ! l = PDict (rs ! l)" "l < length recs"
        using rs(1) by simp_all
      with jr(5) l show "map_of (rs ! l) (PStr ''filename'') \<noteq> Some fn"
        by blast
    qed
    have "ps ! j = (fn, v)"
      using j(1-3) ps by auto
    moreover have "\<forall>l. j < l \<and> l < length ps \<longrightarrow> fst (ps ! l) \<noteq> fn"
      using j4 lp fst_ps by auto
    ultimately show ?L
      unfolding m map_of_rev_last using j(1) lp by auto
  qed
  moreover have "\<forall>j < length recs. \<exists>r. recs ! j = PDict r \<and> s' ! (length s + j) = (c, r)"
    using rs by (simp add: nth_append)
  ultimately show ?thesis
    using d' m(2) rs by (simp add: getitem_setitem)
qed

lemma import_keyed_keyed_from:
  assumes "import_keyed req c key data s = Inr (d', s')"
    and "getitem data (PStr key) = Inr (PList recs)"
  shows "\<exists>m. getitem d' (PStr key) = Inr (PDict m) \<and> keyed_from s' c recs (length s) m"
  using import_keyed_binding [OF assms] unfolding keyed_from_def by auto

lemma keyed_from_prefix:
  assumes "keyed_from s c recs base m" and "prefix s s'"
  shows "keyed_from s' c recs base m"
proof -
  from assms(2) obtain t where t: "s' = s @ t"
    by (auto simp: prefix_def)
  from assms(1) have b: "base + length recs \<le> length s"
    by (simp add: keyed_from_def)
  have "s' ! (base + j) = s ! (base + j)" if "j < length recs" for j
    using that b t by (simp add: nth_append)
  with assms(1) b t show ?thesis
    unfolding keyed_from_def by auto
qed

lemma keyed_from_later_wins:
  assumes k: "keyed_from s' c recs base m"
    and ij: "i < j" "j < length recs"
    and ri: "recs ! i = PDict ri" "map_of ri (PStr ''filename'') = Some fn"
    and rj: "recs ! j = PDict rj" "map_of rj (PStr ''filename'') = Some fn"
    and last: "\<forall>l r. j < l \<and> l < length recs \<and> recs ! l = PDict r \<longrightarrow>
       map_of r (PStr ''filename'') \<noteq> Some fn"
  shows "map_of m fn = Some (PRef (base + j)) \<and> s' ! (base + i) = (c, ri) \<and>
     s' ! (base + j) = (c, rj) \<and> base + j < length s' \<and> PRef (base + i) \<notin> snd ` set m"
proof -
  from k have d: "distinct (map fst m)" and b: "base + length recs \<le> length s'"
    and o: "\<forall>j < length recs. \<exists>r. recs ! j = PDict r \<and> s' ! (base + j) = (c, r)"
    and m: "\<And>fn v. map_of m fn = Some v \<longleftrightarrow>
        (\<exists>j r. j < length recs \<and> recs ! j = PDict r \<and> v = PRef (base + j) \<and>
           map_of r (PStr ''filename'') = Some fn \<and>
           (\<forall>l r'. j < l \<and> l < length recs \<and> recs ! l = PDict r' \<longrightarrow>
              map_of r' (PStr ''filename'') \<noteq> Some fn))"
    unfolding keyed_from_def by blast+
  have 1: "map_of m fn = Some (PRef (base + j))"
    unfolding m using ij rj last by blast
  have "i < length recs"
    using ij by simp
  with o ri(1) have 2: "s' ! (base + i) = (c, ri)"
    by (metis pyval.inject(6))
  from o ij(2) rj(1) have 4: "s' ! (base + j) = (c, rj)"
    by (metis pyval.inject(6))
  have 3: "PRef (base + i) \<notin> snd ` set m"
  proof
    assume "PRef (base + i) \<in> snd ` set m"
    then obtain k where "(k, PRef (base + i)) \<in> set m"
      by force
    with d have "map_of m k = Some (PRef (base + i))"
      by simp
    then obtain j' r where j': "j' < length recs" "recs ! j' = PDict r"
      "PRef (base + i) = PRef (base + j')" "map_of r (PStr ''filename'') = Some k"
      "\<forall>l r'. j' < l \<and> l < length recs \<and> recs ! l = PDict r' \<longrightarrow>
              map_of r' (PStr ''filename'') \<noteq> Some k"
      unfolding m by blast
    from j'(3) have "j' = i" by simp
    with j'(2,4) ri have "k = fn" by simp
    with j'(5) \<open>j' = i\<close> ij rj show False by blast
  qed
  from 1 2 3 4 b ij show ?thesis by simp
qed

lemma py_getattr_last:
  "getitem d (PStr name) = Inr v \<Longrightarrow> py_getattr (s @ [(c, d)]) (PRef (length s)) name = Inr v"
  by (simp add: py_getattr_new getitem_eq_Inr)

lemma task_attachments_keyed:
  assumes "task_import_from_dict req data s = Inr (obj, d', s')"
    and "getitem data (PStr ''attachments'') = Inr (PList recs)"
  shows "\<exists>m. py_getattr s' obj ''attachments'' = Inr (PDict m) \<and>
     keyed_from s' Attachment recs (length s) m"
proof -
  from assms(1) obtain d1 s1 d2 s2 d3 s3 s4 where
    a: "import_keyed req Attachment ''attachments'' data s = Inr (d1, s1)" and
    b: "import_field (basic_import_from_dict req SubmissionFormatElement) ''submission_format'' d1 s1 = Inr (d2, s2)" and
    c: "import_keyed req Manager ''managers'' d2 s2 = Inr (d3, s3)" and
    e: "import_field (basic_import_from_dict req Testcase) ''testcases'' d3 s3 = Inr (d', s4)" and
    r: "obj = PRef (length s4)" "s' = s4 @ [(Task, d')]"
    by (auto simp: task_import_eq_Inr)
  from import_keyed_keyed_from [OF a assms(2)] obtain m where
    m: "getitem d1 (PStr ''attachments'') = Inr (PDict m)" "keyed_from s1 Attachment recs (length s) m"
    by blast
  have "getitem d' (PStr ''attachments'') = getitem d1 (PStr ''attachments'')"
    using import_field_other_key [OF b, of "PStr ''attachments''"]
      import_keyed_other_key [OF c, of "PStr ''attachments''"]
      import_field_other_key [OF e, of "PStr ''attachments''"] by simp
  with m(1) r have g: "py_getattr s' obj ''attachments'' = Inr (PDict m)"
    by (simp add: py_getattr_last)
  have "prefix s1 s2" "prefix s2 s3" "prefix s3 s4" "prefix s4 s'"
    using b c e r import_keyed_frame import_field_frame [OF framed_basic] by (blast, blast, blast, simp)
  then have "prefix s1 s'"
    by (meson prefix_order.trans)
  with m(2) g show ?thesis
    using keyed_from_prefix by blast
qed

lemma task_managers_keyed:
  assumes "task_import_from_dict req data s = Inr (obj, d', s')"
    and "getitem data (PStr ''managers'') = Inr (PList recs)"
  shows "\<exists>m base. py_getattr s' obj ''managers'' = Inr (PDict m) \<and>
     keyed_from s' Manager recs base m"
proof -
  from assms(1) obtain d1 s1 d2 s2 d3 s3 s4 where
    a: "import_keyed req Attachment ''attachments'' data s = Inr (d1, s1)" and
    b: "import_field (basic_import_from_dict req SubmissionFormatElement) ''submission_format'' d1 s1 = Inr (d2, s2)" and
    c: "import_keyed req Manager ''managers'' d2 s2 = Inr (d3, s3)" and
    e: "import_field (basic_import_from_dict req Testcase) ''testcases'' d3 s3 = Inr (d', s4)" and
    r: "obj = PRef (length s4)" "s' = s4 @ [(Task, d')]"
    by (auto simp: task_import_eq_Inr)
  have "getitem d2 (PStr ''managers'') = getitem data (PStr ''managers'')"
    using import_keyed_other_key [OF a, of "PStr ''managers''"]
      import_field_other_key [OF b, of "PStr ''managers''"] by simp
  with assms(2) have "getitem d2 (PStr ''managers'') = Inr (PList recs)"
    by simp
  from import_keyed_keyed_from [OF c this] obtain m where
    m: "getitem d3 (PStr ''managers'') = Inr (PDict m)" "keyed_from s3 Manager recs (length s2) m"
    by blast
  have "getitem d' (PStr ''managers'') = getitem d3 (PStr ''managers'')"
    using import_field_other_key [OF e, of "PStr ''managers''"] by simp
  with m(1) r have g: "py_getattr s' obj ''managers'' = Inr (PDict m)"
    by (simp add: py_getattr_last)
  have "prefix s3 s4" "prefix s4 s'"
    using e r import_field_frame [OF framed_basic] by (blast, simp)
  then have "prefix s3 s'"
    by (meson prefix_order.trans)
  with m(2) g show ?thesis
    using keyed_from_prefix by blast
qed

lemma submission_owned_files_keyed:
  assumes "submission_owned req data s = Inr (d', s')"
    and "getitem data (PStr ''files'') = Inr (PList recs)"
  shows "\<exists>m. getitem d' (PStr ''files'') = Inr (PDict m) \<and> keyed_from s' File recs (length s) m"
proof -
  from assms(1) obtain d1 s1 d2 s2 d3 s3 where
    a: "import_keyed req File ''files'' data s = Inr (d1, s1)" and
    b: "import_keyed req Executable ''executables'' d1 s1 = Inr (d2, s2)" and
    c: "import_field (basic_import_from_dict req Evaluation) ''evaluations'' d2 s2 = Inr (d3, s3)" and
    e: "import_token req d3 s3 = Inr (d', s')"
    by (auto simp: submission_owned_def andthen_eq_Inr)
  from import_keyed_keyed_from [OF a assms(2)] obtain m where
    m: "getitem d1 (PStr ''files'') = Inr (PDict m)" "keyed_from s1 File recs (length s) m"
    by blast
  have "getitem d' (PStr ''files'') = getitem d1 (PStr ''files'')"
    using import_keyed_other_key [OF b, of "PStr ''files''"]
      import_field_other_key [OF c, of "PStr ''files''"]
      import_token_other_key [OF e, of "PStr ''files''"] by simp
  moreover have "prefix s1 s2" "prefix s2 s3" "prefix s3 s'"
    using b c e import_keyed_frame import_field_frame [OF framed_basic] import_token_frame
    by blast+
  then have "prefix s1 s'"
    by (meson prefix_order.trans)
  ultimately show ?thesis
    using m keyed_from_prefix by metis
qed

lemma submission_owned_executables_keyed:
  assumes "submission_owned req data s = Inr (d', s')"
    and "getitem data (PStr ''executables'') = Inr (PList recs)"
  shows "\<exists>m base. getitem d' (PStr ''executables'') = Inr (PDict m) \<and>
     keyed_from s' Executable recs base m"
proof -
  from assms(1) obtain d1 s1 d2 s2 d3 s3 where
    a: "import_keyed req File ''files'' data s = Inr (d1, s1)" and
    b: "import_keyed req Executable ''executables'' d1 s1 = Inr (d2, s2)" and
    c: "import_field (basic_import_from_dict req Evaluation) ''evaluations'' d2 s2 = Inr (d3, s3)" and
    e: "import_token req d3 s3 = Inr (d', s')"
    by (auto simp: submission_owned_def andthen_eq_Inr)
  have "getitem d1 (PStr ''executables'') = Inr (PList recs)"
    using import_keyed_other_key [OF a, of "PStr ''executables''"] assms(2) by simp
  from import_keyed_keyed_from [OF b this] obtain m where
    m: "getitem d2 (PStr ''executables'') = Inr (PDict m)" "keyed_from s2 Executable recs (length s1) m"
    by blast
  have "getitem d' (PStr ''executables'') = getitem d2 (PStr ''executables'')"
    using import_field_other_key [OF c, of "PStr ''executables''"]
      import_token_other_key [OF e, of "PStr ''executables''"] by simp
  moreover have "prefix s2 s3" "prefix s3 s'"
    using c e import_field_frame [OF framed_basic] import_token_frame by blast+
  then have "prefix s2 s'"
    by (meson prefix_order.trans)
  ultimately show ?thesis
    using m keyed_from_prefix by metis
qed

lemma submission_keyed:
  assumes "submission_import_from_dict req tasks data s = Inr (obj, d', s')"
    and "getitem data (PStr key) = Inr (PList recs)"
    and "(key, c) = (''files'', File) \<or> (key, c) = (''executables'', Executable)"
  shows "\<exists>m base. py_getattr s' obj key = Inr (PDict m) \<and> keyed_from s' c recs base m"
proof -
  from assms(1) obtain d1 s1 t where
    o: "submission_owned req data s = Inr (d1, s1)" and
    d': "d' = setitem (setitem d1 (PStr ''task'') t) (PStr ''user'') PNone" and
    r: "obj = PRef (length s1)" "s' = s1 @ [(Submission, d')]"
    by (auto simp: submission_import_eq_Inr)
  have "\<exists>m base. getitem d1 (PStr key) = Inr (PDict m) \<and> keyed_from s1 c recs base m"
  proof (cases "key = ''files''")
    case True
    with assms(2,3) submission_owned_files_keyed [OF o, of recs] show ?thesis
      by auto
  next
    case False
    with assms(2,3) submission_owned_executables_keyed [OF o, of recs] show ?thesis
      by auto
  qed
  then obtain m base where m: "getitem d1 (PStr key) = Inr (PDict m)" "keyed_from s1 c recs base m"
    by blast
  have "getitem d' (PStr key) = Inr (PDict m)"
    using m(1) assms(3) by (auto simp: d' getitem_setitem)
  then have "py_getattr s' obj key = Inr (PDict m)"
    using r by (simp add: py_getattr_last)
  moreover have "keyed_from s' c recs base m"
    using keyed_from_prefix [OF m(2), of s'] r by simp
  ultimately show ?thesis by blast
qed

lemma import_keyed_succeeds:
  assumes g: "getitem data (PStr key) = Inr (PList (map PDict rs))"
    and wf: "\<forall>r \<in> set rs. accepted req c r \<and>
       (\<exists>fn. map_of r (PStr ''filename'') = Some fn \<and> hashable fn)"
  shows "\<exists>d'. import_keyed req c key data s = Inr (d', s @ map (Pair c) rs)"
proof -
  let ?s' = "s @ map (Pair c) rs"
  from wf import_each_basic_succeeds [of rs req c s] obtain objs where
    e: "import_each (basic_import_from_dict req c) (map PDict rs) s = Inr (objs, ?s')"
    by blast
  have "inj PDict"
    by (simp add: inj_def)
  with import_each_basic_result [OF e] have
    objs: "length objs = length rs" "\<forall>i < length rs. objs ! i = PRef (length s + i)"
    by (auto simp: inj_map_eq_map)
  let ?d1 = "setitem data (PStr key) (PList objs)"
  have f: "import_field (basic_import_from_dict req c) key data s = Inr (?d1, ?s')"
    using g e by (simp add: import_field_def py_iter_def)
  let ?ps = "map (\<lambda>i. (the (map_of (rs ! i) (PStr ''filename'')), objs ! i)) [0 ..< length rs]"
  have "\<forall>i < length objs. filename_of ?s' (objs ! i) = Inr (fst (?ps ! i)) \<and> snd (?ps ! i) = objs ! i"
  proof (intro allI impI)
    fix i assume "i < length objs"
    then have i: "i < length rs" using objs(1) by simp
    then have "rs ! i \<in> set rs" by simp
    with wf obtain fn where "map_of (rs ! i) (PStr ''filename'') = Some fn"
      by blast
    with i objs(2) show "filename_of ?s' (objs ! i) = Inr (fst (?ps ! i)) \<and> snd (?ps ! i) = objs ! i"
      by (simp add: filename_of_new)
  qed
  then have kp: "key_pairs filename_of ?s' objs = Inr ?ps"
    using objs(1) by (simp add: key_pairs_eq_Inr)
  have "\<forall>k \<in> fst ` set ?ps. hashable k"
  proof
    fix k assume "k \<in> fst ` set ?ps"
    then obtain i where i: "i < length rs" "k = the (map_of (rs ! i) (PStr ''filename''))"
      by auto
    then have "rs ! i \<in> set rs" by simp
    with wf i(2) show "hashable k" by force
  qed
  then obtain m where m: "py_dict ?ps = Inr m"
    unfolding py_dict_def using dict_from_succeeds [of "[]" ?ps] by blast
  have "key_field filename_of key ?d1 ?s' = Inr (setitem ?d1 (PStr key) (PDict m))"
    using kp m by (simp add: key_field_def getitem_setitem py_iter_def)
  with f show ?thesis
    by (simp add: import_keyed_def)
qed

lemma demo_task_run:
  "task_import_from_dict demo_req demo_task [] = Inr (PRef 2, demo_task_built, demo_task_store)"
  by (simp add: eval_defs demo_task_def demo_task_built_def demo_task_store_def)

lemma keyed_from_binds:
  assumes k: "keyed_from s' c (map PDict rs) base m" and j: "j < length rs"
    and fn: "map_of (rs ! j) (PStr ''filename'') = Some fn"
  shows "s' ! (base + j) = (c, rs ! j) \<and>
     (map_of m fn = Some (PRef (base + j)) \<longleftrightarrow>
        (\<forall>l. j < l \<and> l < length rs \<longrightarrow> map_of (rs ! l) (PStr ''filename'') \<noteq> Some fn))"
proof -
  from k have o: "\<forall>j < length rs. \<exists>r. map PDict rs ! j = PDict r \<and> s' ! (base + j) = (c, r)"
    and m: "\<And>fn v. map_of m fn = Some v \<longleftrightarrow>
        (\<exists>j r. j < length rs \<and> map PDict rs ! j = PDict r \<and> v = PRef (base + j) \<and>
           map_of r (PStr ''filename'') = Some fn \<and>
           (\<forall>l r'. j < l \<and> l < length rs \<and> map PDict rs ! l = PDict r' \<longrightarrow>
              map_of r' (PStr ''filename'') \<noteq> Some fn))"
    unfolding keyed_from_def by simp_all
  from o j have 1: "s' ! (base + j) = (c, rs ! j)"
    by auto
  have "map_of m fn = Some (PRef (base + j)) \<longleftrightarrow>
        (\<forall>l. j < l \<and> l < length rs \<longrightarrow> map_of (rs ! l) (PStr ''filename'') \<noteq> Some fn)"
    (is "?L \<longleftrightarrow> ?R")
  proof
    assume ?L
    then obtain j' r where j': "j' < length rs" "map PDict rs ! j' = PDict r"
      "PRef (base + j) = PRef (base + j')"
      "\<forall>l r'. j' < l \<and> l < length rs \<and> map PDict rs ! l = PDict r' \<longrightarrow>
              map_of r' (PStr ''filename'') \<noteq> Some fn"
      unfolding m by blast
    from j'(3) have "j' = j" by simp
    show ?R
    proof (intro allI impI)
      fix l assume l: "j < l \<and> l < length rs"
      then have "map PDict rs ! l = PDict (rs ! l)" by simp
      with j'(4) l \<open>j' = j\<close> show "map_of (rs ! l) (PStr ''filename'') \<noteq> Some fn"
        by blast
    qed
  next
    assume ?R
    then have "\<forall>l r'. j < l \<and> l < length rs \<and> map PDict rs ! l = PDict r' \<longrightarrow>
              map_of r' (PStr ''filename'') \<noteq> Some fn"
      by auto
    moreover have "map PDict rs ! j = PDict (rs ! j)"
      using j by simp
    ultimately show ?L
      unfolding m using j fn by blast
  qed
  with 1 show ?thesis by simp
qed

subsection \<open>The scores of a ranking view\<close>

lemma rankingview_keyfunc_prefix:
  "prefix s s' \<Longrightarrow> rankingview_keyfunc s v = Inr k \<Longrightarrow> rankingview_keyfunc s' v = Inr k"
  by (auto simp: rankingview_keyfunc_def andthen_eq_Inr dest: py_getattr_prefix)

lemma score_import_keyfunc:
  assumes "score_import_from_dict req tasks users data s = Inr (obj, d', s')"
  shows "obj = PRef (length s) \<and> s' = s @ [(Score, d')] \<and> (\<exists>k. rankingview_keyfunc s' obj = Inr k)"
proof -
  from score_import_task [OF assms] score_import_user [OF assms]
  have "\<exists>k. rankingview_keyfunc s' obj = Inr k"
    by (auto simp: rankingview_keyfunc_def)
  with assms show ?thesis
    by (auto simp: score_import_eq_Inr)
qed

lemma import_each_score_result:
  "import_each (score_import_from_dict req tasks users) xs s = Inr (objs, s') \<Longrightarrow>
     length objs = length xs \<and> length s' = length s + length xs \<and> prefix s s' \<and>
     (\<forall>i < length xs. objs ! i = PRef (length s + i) \<and> fst (s' ! (length s + i)) = Score \<and>
        (\<exists>k. rankingview_keyfunc s' (PRef (length s + i)) = Inr k))"
proof (induction xs arbitrary: s objs)
  case Nil
  then show ?case by auto
next
  case (Cons x xs)
  from Cons.prems obtain d obj d' s1 objs' where
    step: "score_import_from_dict req tasks users d s = Inr (obj, d', s1)" and
    rest: "import_each (score_import_from_dict req tasks users) xs s1 = Inr (objs', s')" and
    objs: "objs = obj # objs'"
    by (auto simp: andthen_eq_Inr)
  from score_import_keyfunc [OF step] obtain k where
    o: "obj = PRef (length s)" "s1 = s @ [(Score, d')]" "rankingview_keyfunc s1 obj = Inr k"
    by blast
  from Cons.IH [OF rest] have ih: "length objs' = length xs" "length s' = length s1 + length xs"
    "prefix s1 s'"
    "\<forall>i < length xs. objs' ! i = PRef (length s1 + i) \<and> fst (s' ! (length s1 + i)) = Score \<and>
        (\<exists>k. rankingview_keyfunc s' (PRef (length s1 + i)) = Inr k)"
    by simp_all
  have p: "prefix s s'"
    using ih(3) o(2) by (auto simp: prefix_def)
  have first: "fst (s' ! length s) = Score" "rankingview_keyfunc s' (PRef (length s)) = Inr k"
    using ih(3) o rankingview_keyfunc_prefix [OF ih(3) o(3)] by (auto simp: prefix_def)
  have "objs ! i = PRef (length s + i) \<and> fst (s' ! (length s + i)) = Score \<and>
        (\<exists>k. rankingview_keyfunc s' (PRef (length s + i)) = Inr k)"
    if "i < length (x # xs)" for i
  proof (cases i)
    case 0
    with first objs o(1) show ?thesis by auto
  next
    case (Suc n)
    with that have "n < length xs" by simp
    with ih(4) have "objs' ! n = PRef (length s1 + n) \<and> fst (s' ! (length s1 + n)) = Score \<and>
        (\<exists>k. rankingview_keyfunc s' (PRef (length s1 + n)) = Inr k)"
      by blast
    with Suc objs o(2) show ?thesis by simp
  qed
  with ih(1,2) p objs o(2) show ?case by simp
qed

lemma rankingview_import_eq_Inr:
  "rankingview_import_from_dict req tasks users data s = Inr (obj, d', s') \<longleftrightarrow>
     (\<exists>d1 s1. import_field (score_import_from_dict req tasks users) ''scores'' data s = Inr (d1, s1) \<and>
        key_field rankingview_keyfunc ''scores'' d1 s1 = Inr d' \<and>
        accepted req RankingView d' \<and> obj = PRef (length s1) \<and> s' = s1 @ [(RankingView, d')])"
  by (auto simp: rankingview_import_from_dict_def andthen_eq_Inr construct_eq_Inr)

lemma framed_rankingview: "framed (rankingview_import_from_dict req tasks users)"
  unfolding framed_def
proof (intro allI impI)
  fix d s obj d' s'
  assume "rankingview_import_from_dict req tasks users d s = Inr (obj, d', s')"
  then obtain d1 s1 where
    a: "import_field (score_import_from_dict req tasks users) ''scores'' d s = Inr (d1, s1)" and
    r: "obj = PRef (length s1)" "s' = s1 @ [(RankingView, d')]"
    by (auto simp: rankingview_import_eq_Inr)
  have p: "prefix s s1"
    using import_field_frame [OF framed_score a] .
  then have "length s \<le> length s1"
    by (rule prefix_length_le)
  with p r show "prefix s s' \<and> fresh_in s s' obj"
    by (auto simp: fresh_in_def prefix_def)
qed

section \<open>Addressing the scores of a ranking view\<close>

text \<open>
  Claim C5, as the code has it. The ranking view's mapping is
  \<^verbatim>\<open>dict([(Score.rankingview_keyfunc(score), score) for score in data['scores']])\<close>,
  without a uniqueness check. After a successful import from the score records
  \<open>recs\<close>, the Score built from record \<open>i\<close> sits at address \<open>length s + i\<close>; every
  entry of the mapping is a Score stored under the key of its own (task, user) pair; and
  looking up the key of the Score built from record \<open>i\<close> returns that Score if and only
  if no later record yields a Score with the same key. So every Score is addressable
  when the records resolve to pairwise distinct pairs, and of two Scores with the same
  pair only the later one is in the mapping.
\<close>

theorem ranking_view_addressing:
  assumes "rankingview_import_from_dict req tasks users data s = Inr (rv, d', s')"
    and "getitem data (PStr ''scores'') = Inr (PList recs)"
  shows "\<exists>m. py_getattr s' rv ''scores'' = Inr (PDict m) \<and>
           length s' = length s + length recs + 1 \<and>
           (\<forall>k v. map_of m k = Some v \<longrightarrow> rankingview_keyfunc s' v = Inr k) \<and>
           (\<forall>i < length recs. fst (s' ! (length s + i)) = Score \<and>
              (\<exists>k. rankingview_keyfunc s' (PRef (length s + i)) = Inr k \<and>
                 (map_of m k = Some (PRef (length s + i)) \<longleftrightarrow>
                    (\<forall>l. i < l \<and> l < length recs \<longrightarrow>
                       rankingview_keyfunc s' (PRef (length s + l)) \<noteq> Inr k))))"
proof -
  from assms obtain objs s1 ps m where
    e: "import_each (score_import_from_dict req tasks users) recs s = Inr (objs, s1)" and
    kp: "key_pairs rankingview_keyfunc s1 objs = Inr ps" and
    m: "py_dict ps = Inr m" and
    d': "d' = setitem (setitem data (PStr ''scores'') (PList objs)) (PStr ''scores'') (PDict m)" and
    r: "rv = PRef (length s1)" "s' = s1 @ [(RankingView, d')]"
    by (auto simp: rankingview_import_eq_Inr import_field_eq_Inr key_field_eq_Inr py_iter_def
        getitem_setitem)
  from import_each_score_result [OF e] have
    lo: "length objs = length recs" and ls: "length s1 = length s + length recs" and
    o: "\<forall>i < length recs. objs ! i = PRef (length s + i) \<and> fst (s1 ! (length s + i)) = Score \<and>
        (\<exists>k. rankingview_keyfunc s1 (PRef (length s + i)) = Inr k)"
    by simp_all
  from kp have lp: "length ps = length objs"
    and pk: "\<forall>i < length objs. rankingview_keyfunc s1 (objs ! i) = Inr (fst (ps ! i)) \<and>
       snd (ps ! i) = objs ! i"
    by (simp_all add: key_pairs_eq_Inr)
  have mm: "map_of m = map_of (rev ps)"
    using py_dict_eq_Inr [OF m] by simp
  have pre: "prefix s1 s'"
    using r(2) by simp
  have key1: "rankingview_keyfunc s1 (PRef (length s + i)) = Inr (fst (ps ! i))"
    "snd (ps ! i) = PRef (length s + i)" if "i < length recs" for i
    using that pk o lo by auto
  have key': "rankingview_keyfunc s' (PRef (length s + i)) = Inr (fst (ps ! i))"
    if "i < length recs" for i
    using rankingview_keyfunc_prefix [OF pre key1(1) [OF that]] .
  have g: "py_getattr s' rv ''scores'' = Inr (PDict m)"
    using r d' by (simp add: py_getattr_last getitem_setitem)
  have vals: "rankingview_keyfunc s' v = Inr k" if "map_of m k = Some v" for k v
  proof -
    from that obtain i where i: "i < length ps" "ps ! i = (k, v)"
      unfolding mm map_of_rev_last by blast
    then have "i < length recs" using lp lo by simp
    with key' [of i] key1(2) [of i] i(2) show ?thesis by simp
  qed
  have addr: "map_of m (fst (ps ! i)) = Some (PRef (length s + i)) \<longleftrightarrow>
     (\<forall>l. i < l \<and> l < length recs \<longrightarrow> rankingview_keyfunc s' (PRef (length s + l)) \<noteq> Inr (fst (ps ! i)))"
    (is "?L \<longleftrightarrow> ?R") if i: "i < length recs" for i
  proof
    assume ?L
    then obtain j where j: "j < length ps" "ps ! j = (fst (ps ! i), PRef (length s + i))"
      "\<forall>l. j < l \<and> l < length ps \<longrightarrow> fst (ps ! l) \<noteq> fst (ps ! i)"
      unfolding mm map_of_rev_last by blast
    from j(1) have "j < length recs" using lp lo by simp
    with key1(2) [of j] j(2) have "j = i" by simp
    with j(3) lp lo key' show ?R by auto
  next
    assume ?R
    then have "\<forall>l. i < l \<and> l < length ps \<longrightarrow> fst (ps ! l) \<noteq> fst (ps ! i)"
      using key' lp lo by auto
    moreover have "ps ! i = (fst (ps ! i), PRef (length s + i))"
      using key1(2) [OF i] by (cases "ps ! i") simp
    ultimately show ?L
      unfolding mm map_of_rev_last using i lp lo by auto
  qed
  have "\<forall>i < length recs. fst (s' ! (length s + i)) = Score \<and>
              (\<exists>k. rankingview_keyfunc s' (PRef (length s + i)) = Inr k \<and>
                 (map_of m k = Some (PRef (length s + i)) \<longleftrightarrow>
                    (\<forall>l. i < l \<and> l < length recs \<longrightarrow>
                       rankingview_keyfunc s' (PRef (length s + l)) \<noteq> Inr k)))"
  proof (intro allI impI conjI)
    fix i assume i: "i < length recs"
    with o ls r(2) show "fst (s' ! (length s + i)) = Score"
      by (simp add: nth_append)
    from key' [OF i] addr [OF i]
    show "\<exists>k. rankingview_keyfunc s' (PRef (length s + i)) = Inr k \<and>
                 (map_of m k = Some (PRef (length s + i)) \<longleftrightarrow>
                    (\<forall>l. i < l \<and> l < length recs \<longrightarrow>
                       rankingview_keyfunc s' (PRef (length s + l)) \<noteq> Inr k))"
      by blast
  qed
  with g vals ls r(2) show ?thesis
    by (intro exI [of _ m]) simp
qed

lemma demo_ranking_run:
  "rankingview_import_from_dict demo_req (PList [PRef 0]) (PList [PRef 1]) demo_ranking demo_store =
     Inr (PRef 4, demo_ranking_built, demo_ranking_store)"
  by (simp add: eval_defs demo_ranking_def demo_ranking_built_def demo_ranking_store_def
      demo_store_def)

theorem ranking_view_addressing_witness:
  "rankingview_import_from_dict demo_req (PList [PRef 0]) (PList [PRef 1]) demo_ranking demo_store =
     Inr (PRef 4, demo_ranking_built, demo_ranking_store) \<and>
   (\<exists>m. py_getattr demo_ranking_store (PRef 4) ''scores'' = Inr (PDict m) \<and>
      map_of m (PTuple [PRef 0, PRef 1]) = Some (PRef 3) \<and>
      map_of m (PTuple [PRef 0, PRef 1]) \<noteq> Some (PRef 2))"
proof -
  let ?r1 = "PDict [(PStr ''task'', PInt 0), (PStr ''user'', PStr ''alice''), (PStr ''score'', PInt 10)]"
  let ?r2 = "PDict [(PStr ''task'', PInt 0), (PStr ''user'', PStr ''alice''), (PStr ''score'', PInt 20)]"
  have h: "getitem demo_ranking (PStr ''scores'') = Inr (PList [?r1, ?r2])"
    by (simp add: demo_ranking_def getitem_def)
  from ranking_view_addressing [OF demo_ranking_run h] obtain m where
    m: "py_getattr demo_ranking_store (PRef 4) ''scores'' = Inr (PDict m)"
    "\<forall>i < length [?r1, ?r2]. fst (demo_ranking_store ! (length demo_store + i)) = Score \<and>
        (\<exists>k. rankingview_keyfunc demo_ranking_store (PRef (length demo_store + i)) = Inr k \<and>
           (map_of m k = Some (PRef (length demo_store + i)) \<longleftrightarrow>
              (\<forall>l. i < l \<and> l < length [?r1, ?r2] \<longrightarrow>
                 rankingview_keyfunc demo_ranking_store (PRef (length demo_store + l)) \<noteq> Inr k)))"
    by blast
  have k: "rankingview_keyfunc demo_ranking_store (PRef 3) = Inr (PTuple [PRef 0, PRef 1])"
    by (simp add: rankingview_keyfunc_def py_getattr_def demo_ranking_store_def)
  have l: "length demo_store + 1 = 3" "(1::nat) < length [?r1, ?r2]"
    by (simp_all add: demo_store_def)
  have v: "\<forall>l. 1 < l \<and> l < length [?r1, ?r2] \<longrightarrow>
      rankingview_keyfunc demo_ranking_store (PRef (length demo_store + l)) \<noteq>
        Inr (PTuple [PRef 0, PRef 1])"
    by auto
  from m(2) l(2) obtain k' where
    k': "rankingview_keyfunc demo_ranking_store (PRef (length demo_store + 1)) = Inr k'"
    "map_of m k' = Some (PRef (length demo_store + 1)) \<longleftrightarrow>
       (\<forall>l. 1 < l \<and> l < length [?r1, ?r2] \<longrightarrow>
          rankingview_keyfunc demo_ranking_store (PRef (length demo_store + l)) \<noteq> Inr k')"
    by blast
  from k'(1) k l(1) have "k' = PTuple [PRef 0, PRef 1]"
    by simp
  with k'(2) v l(1) have "map_of m (PTuple [PRef 0, PRef 1]) = Some (PRef 3)"
    by simp
  with m(1) demo_ranking_run show ?thesis
    by auto
qed

text \<open>
  Claim C5 fails as stated: two score records for task 0 and user \<^verbatim>\<open>alice\<close> are
  imported without error into two distinct Score objects (addresses 2 and 3) with the
  same (task, user) pair, and the pair addresses the second one only.
\<close>

theorem ranking_view_addressing_counterexample:
  "rankingview_import_from_dict demo_req (PList [PRef 0]) (PList [PRef 1])
     [(PStr ''scores'',
         PList [PDict [(PStr ''task'', PInt 0), (PStr ''user'', PStr ''alice''), (PStr ''score'', PInt 10)],
                PDict [(PStr ''task'', PInt 0), (PStr ''user'', PStr ''alice''), (PStr ''score'', PInt 20)]])]
     [(Task, [(PStr ''name'', PStr ''sum'')]), (User, [(PStr ''username'', PStr ''alice'')])] =
   Inr (PRef 4,
     [(PStr ''scores'', PDict [(PTuple [PRef 0, PRef 1], PRef 3)])],
     [(Task, [(PStr ''name'', PStr ''sum'')]), (User, [(PStr ''username'', PStr ''alice'')]),
      (Score, [(PStr ''task'', PRef 0), (PStr ''user'', PRef 1), (PStr ''score'', PInt 10)]),
      (Score, [(PStr ''task'', PRef 0), (PStr ''user'', PRef 1), (PStr ''score'', PInt 20)]),
      (RankingView, [(PStr ''scores'', PDict [(PTuple [PRef 0, PRef 1], PRef 3)])])])"
  using demo_ranking_run
  by (simp add: demo_ranking_def demo_ranking_built_def demo_ranking_store_def demo_store_def)

subsection \<open>The back-reference patch\<close>

lemma fresh_in_iff: "fresh_in s s' v \<longleftrightarrow> (\<exists>r. v = PRef r \<and> length s \<le> r \<and> r < length s')"
  by (cases v) (simp_all add: fresh_in_def)

lemma owns_submissions_prefix:
  "owns_submissions s u \<Longrightarrow> prefix s s' \<Longrightarrow> owns_submissions s' u"
  unfolding owns_submissions_def by (meson py_getattr_prefix)

lemma import_each_post:
  assumes fr: "framed f"
    and post: "\<And>d s obj d' s'. f d s = Inr (obj, d', s') \<Longrightarrow> Q s' obj"
    and stable: "\<And>s s' v. Q s v \<Longrightarrow> prefix s s' \<Longrightarrow> Q s' v"
  shows "import_each f xs s = Inr (objs, s') \<Longrightarrow> \<forall>v \<in> set objs. Q s' v"
proof (induction xs arbitrary: s objs)
  case Nil
  then show ?case by simp
next
  case (Cons x xs)
  from Cons.prems obtain d obj d' s1 objs' where
    step: "f d s = Inr (obj, d', s1)" and
    rest: "import_each f xs s1 = Inr (objs', s')" and
    objs: "objs = obj # objs'"
    by (auto simp: andthen_eq_Inr)
  from import_each_frame [OF fr rest] have "prefix s1 s'" by simp
  with post [OF step] have "Q s' obj" by (rule stable)
  with Cons.IH [OF rest] objs show ?case by simp
qed

lemma patch_user_result:
  assumes "\<forall>v \<in> set subs. \<exists>r. v = PRef r \<and> r < length s" and "distinct subs"
  shows "\<exists>s'. patch_user obj subs s = Inr s' \<and> length s' = length s \<and>
     (\<forall>r < length s. s' ! r =
        (if PRef r \<in> set subs then (fst (s ! r), setitem (snd (s ! r)) (PStr ''user'') obj)
         else s ! r))"
  using assms
proof (induction subs arbitrary: s)
  case Nil
  then show ?case by simp
next
  case (Cons sub subs)
  from Cons.prems(1) obtain r0 where r0: "sub = PRef r0" "r0 < length s"
    by auto
  let ?s1 = "s[r0 := (fst (s ! r0), setitem (snd (s ! r0)) (PStr ''user'') obj)]"
  have step: "py_setattr s sub ''user'' obj = Inr ?s1"
    using r0 by (simp add: py_setattr_def)
  have "\<forall>v \<in> set subs. \<exists>r. v = PRef r \<and> r < length ?s1"
    using Cons.prems(1) by simp
  moreover have "distinct subs"
    using Cons.prems(2) by simp
  ultimately obtain s' where s': "patch_user obj subs ?s1 = Inr s'" "length s' = length ?s1"
    "\<forall>r < length ?s1. s' ! r =
        (if PRef r \<in> set subs then (fst (?s1 ! r), setitem (snd (?s1 ! r)) (PStr ''user'') obj)
         else ?s1 ! r)"
    using Cons.IH [of ?s1] by blast
  have notin: "PRef r0 \<notin> set subs"
    using Cons.prems(2) r0(1) by simp
  have "\<forall>r < length s. s' ! r =
        (if PRef r \<in> set (sub # subs) then (fst (s ! r), setitem (snd (s ! r)) (PStr ''user'') obj)
         else s ! r)"
  proof (intro allI impI)
    fix r assume r: "r < length s"
    show "s' ! r =
        (if PRef r \<in> set (sub # subs) then (fst (s ! r), setitem (snd (s ! r)) (PStr ''user'') obj)
         else s ! r)"
    proof (cases "r = r0")
      case True
      with s'(3) r notin r0 show ?thesis by simp
    next
      case False
      with s'(3) r r0 show ?thesis by simp
    qed
  qed
  with step s'(1,2) show ?case by simp
qed

lemma submission_import_unset:
  "submission_import_from_dict req tasks d s = Inr (obj, d', s') \<Longrightarrow>
     py_getattr s' obj ''user'' = Inr PNone"
  using submission_import_task by blast

lemma user_import_eq_Inr:
  "user_import_from_dict req tasks data s = Inr (obj, d', s') \<longleftrightarrow>
     (\<exists>d1 s1 d2 s2 s3 v subs.
        import_field (basic_import_from_dict req Message) ''messages'' data s = Inr (d1, s1) \<and>
        import_field (basic_import_from_dict req Question) ''questions'' d1 s1 = Inr (d2, s2) \<and>
        import_field (submission_import_from_dict req tasks) ''submissions'' d2 s2 = Inr (d', s3) \<and>
        accepted req User d' \<and> obj = PRef (length s3) \<and>
        py_getattr (s3 @ [(User, d')]) obj ''submissions'' = Inr v \<and> py_iter v = Inr subs \<and>
        patch_user obj subs (s3 @ [(User, d')]) = Inr s')"
  by (auto simp: user_import_from_dict_def andthen_eq_Inr construct_eq_Inr)

lemma user_import_result:
  assumes "user_import_from_dict req tasks data s = Inr (u, d', s')"
  shows "\<exists>s3 subs. prefix s s3 \<and> u = PRef (length s3) \<and> length s' = Suc (length s3) \<and>
     distinct subs \<and> (\<forall>v \<in> set subs. fresh_in s s3 v) \<and>
     (\<forall>sub \<in> set subs. py_getattr (s3 @ [(User, d')]) sub ''user'' = Inr PNone) \<and>
     getitem d' (PStr ''submissions'') = Inr (PList subs) \<and>
     patch_user u subs (s3 @ [(User, d')]) = Inr s' \<and>
     (\<forall>r < Suc (length s3). s' ! r =
        (if PRef r \<in> set subs
         then (fst ((s3 @ [(User, d')]) ! r), setitem (snd ((s3 @ [(User, d')]) ! r)) (PStr ''user'') u)
         else (s3 @ [(User, d')]) ! r))"
proof -
  from assms obtain d1 s1 d2 s2 s3 v subs where
    a: "import_field (basic_import_from_dict req Message) ''messages'' data s = Inr (d1, s1)" and
    b: "import_field (basic_import_from_dict req Question) ''questions'' d1 s1 = Inr (d2, s2)" and
    c: "import_field (submission_import_from_dict req tasks) ''submissions'' d2 s2 = Inr (d', s3)" and
    u: "u = PRef (length s3)" and
    g: "py_getattr (s3 @ [(User, d')]) u ''submissions'' = Inr v" "py_iter v = Inr subs" and
    p: "patch_user u subs (s3 @ [(User, d')]) = Inr s'"
    unfolding user_import_eq_Inr by blast
  let ?s4 = "s3 @ [(User, d')]"
  from c obtain xs objs where
    e: "import_each (submission_import_from_dict req tasks) xs s2 = Inr (objs, s3)" and
    d': "d' = setitem d2 (PStr ''submissions'') (PList objs)"
    by (auto simp: import_field_eq_Inr)
  have gd: "getitem d' (PStr ''submissions'') = Inr (PList objs)"
    by (simp add: d' getitem_setitem)
  then have "py_getattr ?s4 u ''submissions'' = Inr (PList objs)"
    using u by (simp add: py_getattr_last)
  with g have subs: "subs = objs"
    by (auto simp: py_iter_def)
  from import_each_frame [OF framed_submission e] have
    f: "prefix s2 s3" "\<forall>v \<in> set objs. fresh_in s2 s3 v" "distinct objs"
    by simp_all
  have p12: "prefix s s1" "prefix s1 s2"
    using a b import_field_frame [OF framed_basic] by blast+
  then have ps3: "prefix s s3"
    using f(1) by (meson prefix_order.trans)
  have len: "length s \<le> length s2"
    using p12 by (meson prefix_length_le le_trans)
  have fr: "\<forall>v \<in> set objs. fresh_in s s3 v"
    using f(2) len fresh_in_mono [of s2 s3 _ s s3] by blast
  have unset3: "\<forall>sub \<in> set objs. py_getattr s3 sub ''user'' = Inr PNone"
  proof (rule import_each_post [where Q = "\<lambda>s v. py_getattr s v ''user'' = Inr PNone",
        OF framed_submission _ _ e])
    show "py_getattr s' obj ''user'' = Inr PNone"
      if "submission_import_from_dict req tasks d s = Inr (obj, d', s')" for d s obj d' s'
      using that by (rule submission_import_unset)
    show "py_getattr s' v ''user'' = Inr PNone"
      if "py_getattr s v ''user'' = Inr PNone" "prefix s s'" for s s' v
      using that(2,1) by (rule py_getattr_prefix)
  qed
  have unset: "\<forall>sub \<in> set objs. py_getattr ?s4 sub ''user'' = Inr PNone"
    using unset3 py_getattr_prefix [of s3 ?s4] by simp
  have valid: "\<forall>v \<in> set objs. \<exists>r. v = PRef r \<and> r < length ?s4"
    using f(2) by (fastforce simp: fresh_in_iff)
  from patch_user_result [OF valid f(3), of u] p subs have
    "length s' = length ?s4"
    "\<forall>r < length ?s4. s' ! r =
        (if PRef r \<in> set objs then (fst (?s4 ! r), setitem (snd (?s4 ! r)) (PStr ''user'') u)
         else ?s4 ! r)"
    by auto
  with ps3 u f(3) fr unset gd p subs show ?thesis
    by (intro exI [of _ s3] exI [of _ objs]) simp
qed

lemma user_import_owns:
  assumes "user_import_from_dict req tasks data s = Inr (u, d', s')"
  shows "prefix s s' \<and> fresh_in s s' u \<and> owns_submissions s' u"
proof -
  from user_import_result [OF assms] obtain s3 subs where
    r: "prefix s s3" "u = PRef (length s3)" "length s' = Suc (length s3)" "distinct subs"
    "\<forall>v \<in> set subs. fresh_in s s3 v"
    "getitem d' (PStr ''submissions'') = Inr (PList subs)" and
    nth: "\<forall>r < Suc (length s3). s' ! r =
        (if PRef r \<in> set subs
         then (fst ((s3 @ [(User, d')]) ! r), setitem (snd ((s3 @ [(User, d')]) ! r)) (PStr ''user'') u)
         else (s3 @ [(User, d')]) ! r)"
    by blast
  have len: "length s \<le> length s3"
    using r(1) by (rule prefix_length_le)
  have range: "length s \<le> k \<and> k < length s3" if "PRef k \<in> set subs" for k
    using r(5) that by (auto simp: fresh_in_iff)
  have old: "s' ! k = s ! k" if "k < length s" for k
  proof -
    have "PRef k \<notin> set subs" using range that by fastforce
    with nth that len have "s' ! k = (s3 @ [(User, d')]) ! k" by simp
    also have "\<dots> = s ! k" using that r(1) len by (auto simp: prefix_def nth_append)
    finally show ?thesis .
  qed
  have "take (length s) s' = s"
    using old len r(3) by (simp add: list_eq_iff_nth_eq)
  then have p: "prefix s s'"
    by (metis take_is_prefix)
  have fu: "fresh_in s s' u"
    using r(2,3) len by (simp add: fresh_in_def)
  have "PRef (length s3) \<notin> set subs"
    using range by fastforce
  with nth have "s' ! length s3 = (User, d')"
    by simp
  with r(2,3,6) have gs: "py_getattr s' u ''submissions'' = Inr (PList subs)"
    by (simp add: py_getattr_def getitem_eq_Inr)
  have "py_getattr s' sub ''user'' = Inr u" if "sub \<in> set subs" for sub
  proof -
    from r(5) that obtain k where k: "sub = PRef k" "k < length s3"
      by (auto simp: fresh_in_iff)
    with nth that have "s' ! k = (fst (s3 ! k), setitem (snd (s3 ! k)) (PStr ''user'') u)"
      by (simp add: nth_append)
    with k r(3) show ?thesis
      by (simp add: py_getattr_def map_of_setitem)
  qed
  with gs r(4) have "owns_submissions s' u"
    unfolding owns_submissions_def by blast
  with p fu show ?thesis by simp
qed

lemma framed_user: "framed (user_import_from_dict req tasks)"
  unfolding framed_def using user_import_owns by blast

subsection \<open>The contest\<close>

lemma contest_import_eq_Inr:
  "contest_import_from_dict req data s = Inr (c, d', s') \<longleftrightarrow>
     (\<exists>d1 s1 uv urecs tasks us s2 d3 s3 rv tasks' users rvd rvobj rvd' s4.
        import_field (task_import_from_dict req) ''tasks'' data s = Inr (d1, s1) \<and>
        getitem d1 (PStr ''users'') = Inr uv \<and> py_iter uv = Inr urecs \<and>
        getitem d1 (PStr ''tasks'') = Inr tasks \<and>
        import_each (user_import_from_dict req tasks) urecs s1 = Inr (us, s2) \<and>
        import_field (basic_import_from_dict req Announcement) ''announcements''
          (setitem d1 (PStr ''users'') (PList us)) s2 = Inr (d3, s3) \<and>
        getitem d3 (PStr ''ranking_view'') = Inr rv \<and>
        getitem d3 (PStr ''tasks'') = Inr tasks' \<and>
        getitem d3 (PStr ''users'') = Inr users \<and>
        as_record rv = Inr rvd \<and>
        rankingview_import_from_dict req tasks' users rvd s3 = Inr (rvobj, rvd', s4) \<and>
        d' = setitem d3 (PStr ''ranking_view'') rvobj \<and>
        accepted req Contest d' \<and> c = PRef (length s4) \<and> s' = s4 @ [(Contest, d')])"
  unfolding contest_import_from_dict_def
  by (simp add: andthen_eq_Inr Let_def construct_eq_Inr split_paired_Ex) blast

lemma contest_import_stages:
  assumes "contest_import_from_dict req data s = Inr (c, d', s')"
  shows "\<exists>tv trecs ts s1 uv urecs us s2 av arecs ans s3 rvv rvd rv rvd' s4.
     getitem data (PStr ''tasks'') = Inr tv \<and> py_iter tv = Inr trecs \<and>
     import_each (task_import_from_dict req) trecs s = Inr (ts, s1) \<and>
     getitem data (PStr ''users'') = Inr uv \<and> py_iter uv = Inr urecs \<and>
     import_each (user_import_from_dict req (PList ts)) urecs s1 = Inr (us, s2) \<and>
     getitem data (PStr ''announcements'') = Inr av \<and> py_iter av = Inr arecs \<and>
     import_each (basic_import_from_dict req Announcement) arecs s2 = Inr (ans, s3) \<and>
     getitem data (PStr ''ranking_view'') = Inr rvv \<and> as_record rvv = Inr rvd \<and>
     rankingview_import_from_dict req (PList ts) (PList us) rvd s3 = Inr (rv, rvd', s4) \<and>
     d' = setitem (setitem (setitem (setitem data (PStr ''tasks'') (PList ts))
            (PStr ''users'') (PList us)) (PStr ''announcements'') (PList ans))
            (PStr ''ranking_view'') rv \<and>
     c = PRef (length s4) \<and> s' = s4 @ [(Contest, d')]"
proof -
  from assms obtain d1 s1 uv urecs tasks us s2 d3 s3 rv tasks' users rvd rvobj rvd' s4 where
    a: "import_field (task_import_from_dict req) ''tasks'' data s = Inr (d1, s1)" and
    b: "getitem d1 (PStr ''users'') = Inr uv" "py_iter uv = Inr urecs"
       "getitem d1 (PStr ''tasks'') = Inr tasks"
       "import_each (user_import_from_dict req tasks) urecs s1 = Inr (us, s2)" and
    c: "import_field (basic_import_from_dict req Announcement) ''announcements''
          (setitem d1 (PStr ''users'') (PList us)) s2 = Inr (d3, s3)" and
    e: "getitem d3 (PStr ''ranking_view'') = Inr rv" "getitem d3 (PStr ''tasks'') = Inr tasks'"
       "getitem d3 (PStr ''users'') = Inr users" "as_record rv = Inr rvd"
       "rankingview_import_from_dict req tasks' users rvd s3 = Inr (rvobj, rvd', s4)" and
    r: "d' = setitem d3 (PStr ''ranking_view'') rvobj" "c = PRef (length s4)"
       "s' = s4 @ [(Contest, d')]"
    unfolding contest_import_eq_Inr by blast
  from a obtain tv trecs ts where
    t: "getitem data (PStr ''tasks'') = Inr tv" "py_iter tv = Inr trecs"
       "import_each (task_import_from_dict req) trecs s = Inr (ts, s1)"
       "d1 = setitem data (PStr ''tasks'') (PList ts)"
    by (auto simp: import_field_eq_Inr)
  from c obtain av arecs ans where
    an: "getitem (setitem d1 (PStr ''users'') (PList us)) (PStr ''announcements'') = Inr av"
       "py_iter av = Inr arecs"
       "import_each (basic_import_from_dict req Announcement) arecs s2 = Inr (ans, s3)"
       "d3 = setitem (setitem d1 (PStr ''users'') (PList us)) (PStr ''announcements'') (PList ans)"
    by (auto simp: import_field_eq_Inr)
  have tasks: "tasks = PList ts" "tasks' = PList ts" "users = PList us"
    using b(3) e(2,3) t(4) an(4) by (simp_all add: getitem_setitem)
  have "getitem data (PStr ''users'') = Inr uv" "getitem data (PStr ''announcements'') = Inr av"
    "getitem data (PStr ''ranking_view'') = Inr rv"
    using b(1) an(1) e(1) t(4) an(4) by (simp_all add: getitem_setitem)
  with t b(2,4) an(2,3,4) e(4,5) r tasks show ?thesis
    by blast
qed

lemma demo_user_run:
  "user_import_from_dict demo_req (PList [PRef 0]) demo_user (take 1 demo_user_store) =
     Inr (PRef 2, demo_user_built, demo_user_store)"
  by (simp add: eval_defs demo_user_def demo_submission_def demo_user_built_def demo_user_store_def)

lemma demo_contest_run:
  "contest_import_from_dict demo_req demo_contest [] = Inr (PRef 5, demo_contest_built, demo_contest_store)"
  by (simp add: eval_defs demo_contest_def demo_user_def demo_submission_def demo_score_def
      demo_contest_built_def demo_user_built_def demo_user_store_def demo_contest_store_def)

section \<open>Back-reference closure\<close>

text \<open>
  Claim C1. After a successful user import the user object \<open>u\<close> holds the sequence
  \<open>subs\<close> of its submissions, and every submission of that sequence has its
  \<^verbatim>\<open>user\<close> attribute set to the reference \<open>u\<close> itself, where before the patch loop
  (in the store \<open>s4\<close> the loop starts from) it held the placeholder \<^verbatim>\<open>None\<close>. The
  loop makes one assignment per element of \<open>subs\<close>, and the elements of \<open>subs\<close>
  are pairwise different objects, so each submission is patched exactly once. After a
  successful contest import this holds, in the final store, for every user of the
  contest: no submission reachable through a user is left unset.
\<close>

theorem back_reference_closure:
  "(user_import_from_dict req tasks data s = Inr (u, d', s') \<longrightarrow>
      (\<exists>subs s4. py_getattr s' u ''submissions'' = Inr (PList subs) \<and> distinct subs \<and>
         patch_user u subs s4 = Inr s' \<and>
         (\<forall>sub \<in> set subs. py_getattr s4 sub ''user'' = Inr PNone \<and>
            py_getattr s' sub ''user'' = Inr u))) \<and>
   (contest_import_from_dict req data s = Inr (c, d', s') \<longrightarrow>
      (\<exists>us. py_getattr s' c ''users'' = Inr (PList us) \<and>
         (\<forall>u \<in> set us. \<exists>subs. py_getattr s' u ''submissions'' = Inr (PList subs) \<and>
            distinct subs \<and> (\<forall>sub \<in> set subs. py_getattr s' sub ''user'' = Inr u))))"
proof (intro conjI impI)
  assume a: "user_import_from_dict req tasks data s = Inr (u, d', s')"
  from user_import_result [OF a] obtain s3 subs where
    r: "distinct subs"
    "\<forall>sub \<in> set subs. py_getattr (s3 @ [(User, d')]) sub ''user'' = Inr PNone"
    "patch_user u subs (s3 @ [(User, d')]) = Inr s'"
    "getitem d' (PStr ''submissions'') = Inr (PList subs)"
    "u = PRef (length s3)" "length s' = Suc (length s3)"
    and nth: "\<forall>r < Suc (length s3). s' ! r =
        (if PRef r \<in> set subs
         then (fst ((s3 @ [(User, d')]) ! r), setitem (snd ((s3 @ [(User, d')]) ! r)) (PStr ''user'') u)
         else (s3 @ [(User, d')]) ! r)"
    and fr: "\<forall>v \<in> set subs. fresh_in s s3 v"
    by blast
  from user_import_owns [OF a] obtain subs' where
    o: "py_getattr s' u ''submissions'' = Inr (PList subs')"
    "\<forall>sub \<in> set subs'. py_getattr s' sub ''user'' = Inr u"
    unfolding owns_submissions_def by blast
  have "PRef (length s3) \<notin> set subs"
    using fr by (fastforce simp: fresh_in_iff)
  with nth have "s' ! length s3 = (User, d')"
    by simp
  with r(4,5,6) have "py_getattr s' u ''submissions'' = Inr (PList subs)"
    by (simp add: py_getattr_def getitem_eq_Inr)
  with o have "subs' = subs" by simp
  with o r show "\<exists>subs s4. py_getattr s' u ''submissions'' = Inr (PList subs) \<and> distinct subs \<and>
         patch_user u subs s4 = Inr s' \<and>
         (\<forall>sub \<in> set subs. py_getattr s4 sub ''user'' = Inr PNone \<and>
            py_getattr s' sub ''user'' = Inr u)"
    by blast
next
  assume a: "contest_import_from_dict req data s = Inr (c, d', s')"
  from contest_import_stages [OF a] obtain ts s1 urecs us s2 arecs ans s3 rvd rv rvd' s4 where
    u: "import_each (user_import_from_dict req (PList ts)) urecs s1 = Inr (us, s2)" and
    an: "import_each (basic_import_from_dict req Announcement) arecs s2 = Inr (ans, s3)" and
    rk: "rankingview_import_from_dict req (PList ts) (PList us) rvd s3 = Inr (rv, rvd', s4)" and
    d': "d' = setitem (setitem (setitem (setitem data (PStr ''tasks'') (PList ts))
            (PStr ''users'') (PList us)) (PStr ''announcements'') (PList ans))
            (PStr ''ranking_view'') rv" and
    r: "c = PRef (length s4)" "s' = s4 @ [(Contest, d')]"
    by blast
  have own2: "\<forall>v \<in> set us. owns_submissions s2 v"
  proof (rule import_each_post [where Q = owns_submissions, OF framed_user _ _ u])
    show "owns_submissions s' obj"
      if "user_import_from_dict req (PList ts) d s = Inr (obj, d', s')" for d s obj d' s'
      using user_import_owns [OF that] by simp
    show "owns_submissions s' v" if "owns_submissions s v" "prefix s s'" for s s' v
      using that by (rule owns_submissions_prefix)
  qed
  have "prefix s2 s3" "prefix s3 s4" "prefix s4 s'"
    using import_each_frame [OF framed_basic an] framedD [OF framed_rankingview rk] r(2)
    by simp_all
  then have "prefix s2 s'"
    by (meson prefix_order.trans)
  with own2 have "\<forall>v \<in> set us. owns_submissions s' v"
    using owns_submissions_prefix by blast
  moreover have "py_getattr s' c ''users'' = Inr (PList us)"
    using r d' by (simp add: py_getattr_last getitem_setitem)
  ultimately show "\<exists>us. py_getattr s' c ''users'' = Inr (PList us) \<and>
         (\<forall>u \<in> set us. \<exists>subs. py_getattr s' u ''submissions'' = Inr (PList subs) \<and>
            distinct subs \<and> (\<forall>sub \<in> set subs. py_getattr s' sub ''user'' = Inr u))"
    unfolding owns_submissions_def by blast
qed

theorem back_reference_closure_witness:
  "user_import_from_dict demo_req (PList [PRef 0]) demo_user (take 1 demo_user_store) =
     Inr (PRef 2, demo_user_built, demo_user_store) \<and>
   contest_import_from_dict demo_req demo_contest [] = Inr (PRef 5, demo_contest_built, demo_contest_store) \<and>
   py_getattr demo_contest_store (PRef 5) ''users'' = Inr (PList [PRef 2]) \<and>
   py_getattr demo_contest_store (PRef 2) ''submissions'' = Inr (PList [PRef 1]) \<and>
   py_getattr demo_contest_store (PRef 1) ''user'' = Inr (PRef 2) \<and>
   py_getattr demo_user_store (PRef 1) ''user'' = Inr (PRef 2)"
proof -
  note t = back_reference_closure [of demo_req "PList [PRef 0]" demo_user "take 1 demo_user_store" "PRef 2"
      demo_user_built demo_user_store "PRef 5"]
    back_reference_closure [of demo_req "PList [PRef 0]" demo_contest "[]" "PRef 2"
      demo_contest_built demo_contest_store "PRef 5"]
  have g: "py_getattr demo_contest_store (PRef 5) ''users'' = Inr (PList [PRef 2])"
    "py_getattr demo_contest_store (PRef 2) ''submissions'' = Inr (PList [PRef 1])"
    "py_getattr demo_user_store (PRef 2) ''submissions'' = Inr (PList [PRef 1])"
    by (simp_all add: py_getattr_def demo_contest_store_def demo_contest_built_def
        demo_user_store_def demo_user_built_def)
  from t(1) demo_user_run g(3) have "py_getattr demo_user_store (PRef 1) ''user'' = Inr (PRef 2)"
    by auto
  moreover from t(2) demo_contest_run g(1,2)
  have "py_getattr demo_contest_store (PRef 1) ''user'' = Inr (PRef 2)"
    by auto
  ultimately show ?thesis
    using demo_user_run demo_contest_run g by simp
qed

section \<open>The order of the contest import\<close>

text \<open>
  Claim C4. A successful contest import is the composition of four stages, each run on
  the store the previous one left: all tasks (from store \<open>s\<close> to \<open>s1\<close>), then all
  users, each given the completed task list (\<open>s1\<close> to \<open>s2\<close>), then all announcements
  (\<open>s2\<close> to \<open>s3\<close>), then the ranking view, given the completed task list and the
  completed user list (\<open>s3\<close> to \<open>s4\<close>); last the Contest is constructed from the four
  results. No stage changes an object of an earlier one, and the objects are created in
  that order: the addresses of the tasks lie below \<open>length s1\<close>, those of the users
  between \<open>length s1\<close> and \<open>length s2\<close>, those of the announcements between
  \<open>length s2\<close> and \<open>length s3\<close>, the ranking view's between \<open>length s3\<close> and
  \<open>length s4\<close>, and the Contest is the last object. When a stage raises, the import
  raises that exception, and no later stage is run.
\<close>

theorem contest_build_order:
  "(contest_import_from_dict req data s = Inr (c, d', s') \<longrightarrow>
      (\<exists>tv trecs ts s1 uv urecs us s2 av arecs ans s3 rvv rvd rv rvd' s4.
         getitem data (PStr ''tasks'') = Inr tv \<and> py_iter tv = Inr trecs \<and>
         import_each (task_import_from_dict req) trecs s = Inr (ts, s1) \<and>
         getitem data (PStr ''users'') = Inr uv \<and> py_iter uv = Inr urecs \<and>
         import_each (user_import_from_dict req (PList ts)) urecs s1 = Inr (us, s2) \<and>
         getitem data (PStr ''announcements'') = Inr av \<and> py_iter av = Inr arecs \<and>
         import_each (basic_import_from_dict req Announcement) arecs s2 = Inr (ans, s3) \<and>
         getitem data (PStr ''ranking_view'') = Inr rvv \<and> as_record rvv = Inr rvd \<and>
         rankingview_import_from_dict req (PList ts) (PList us) rvd s3 = Inr (rv, rvd', s4) \<and>
         c = PRef (length s4) \<and> s' = s4 @ [(Contest, d')] \<and>
         py_getattr s' c ''tasks'' = Inr (PList ts) \<and>
         py_getattr s' c ''users'' = Inr (PList us) \<and>
         py_getattr s' c ''announcements'' = Inr (PList ans) \<and>
         py_getattr s' c ''ranking_view'' = Inr rv \<and>
         prefix s s1 \<and> prefix s1 s2 \<and> prefix s2 s3 \<and> prefix s3 s4 \<and>
         (\<forall>t \<in> set ts. \<exists>r. t = PRef r \<and> length s \<le> r \<and> r < length s1) \<and>
         (\<forall>u \<in> set us. \<exists>r. u = PRef r \<and> length s1 \<le> r \<and> r < length s2) \<and>
         (\<forall>a \<in> set ans. \<exists>r. a = PRef r \<and> length s2 \<le> r \<and> r < length s3) \<and>
         (\<exists>r. rv = PRef r \<and> length s3 \<le> r \<and> r < length s4))) \<and>
   (import_field (task_import_from_dict req) ''tasks'' data s = Inl e \<longrightarrow>
      contest_import_from_dict req data s = Inl e) \<and>
   (import_field (task_import_from_dict req) ''tasks'' data s = Inr (d1, s1) \<and>
    getitem d1 (PStr ''users'') = Inr uv \<and> py_iter uv = Inr urecs \<and>
    getitem d1 (PStr ''tasks'') = Inr tasks \<and>
    import_each (user_import_from_dict req tasks) urecs s1 = Inl e \<longrightarrow>
      contest_import_from_dict req data s = Inl e) \<and>
   (import_field (task_import_from_dict req) ''tasks'' data s = Inr (d1, s1) \<and>
    getitem d1 (PStr ''users'') = Inr uv \<and> py_iter uv = Inr urecs \<and>
    getitem d1 (PStr ''tasks'') = Inr tasks \<and>
    import_each (user_import_from_dict req tasks) urecs s1 = Inr (us, s2) \<and>
    import_field (basic_import_from_dict req Announcement) ''announcements''
      (setitem d1 (PStr ''users'') (PList us)) s2 = Inl e \<longrightarrow>
      contest_import_from_dict req data s = Inl e) \<and>
   (import_field (task_import_from_dict req) ''tasks'' data s = Inr (d1, s1) \<and>
    getitem d1 (PStr ''users'') = Inr uv \<and> py_iter uv = Inr urecs \<and>
    getitem d1 (PStr ''tasks'') = Inr tasks \<and>
    import_each (user_import_from_dict req tasks) urecs s1 = Inr (us, s2) \<and>
    import_field (basic_import_from_dict req Announcement) ''announcements''
      (setitem d1 (PStr ''users'') (PList us)) s2 = Inr (d3, s3) \<and>
    getitem d3 (PStr ''ranking_view'') = Inr rvv \<and> as_record rvv = Inr rvd \<and>
    rankingview_import_from_dict req tasks (PList us) rvd s3 = Inl e \<longrightarrow>
      contest_import_from_dict req data s = Inl e)"
proof (intro conjI impI)
  assume a: "contest_import_from_dict req data s = Inr (c, d', s')"
  from contest_import_stages [OF a] obtain tv trecs ts s1 uv urecs us s2 av arecs ans s3 rvv rvd
    rv rvd' s4 where
    st: "getitem data (PStr ''tasks'') = Inr tv" "py_iter tv = Inr trecs"
      "import_each (task_import_from_dict req) trecs s = Inr (ts, s1)"
      "getitem data (PStr ''users'') = Inr uv" "py_iter uv = Inr urecs"
      "import_each (user_import_from_dict req (PList ts)) urecs s1 = Inr (us, s2)"
      "getitem data (PStr ''announcements'') = Inr av" "py_iter av = Inr arecs"
      "import_each (basic_import_from_dict req Announcement) arecs s2 = Inr (ans, s3)"
      "getitem data (PStr ''ranking_view'') = Inr rvv" "as_record rvv = Inr rvd"
      "rankingview_import_from_dict req (PList ts) (PList us) rvd s3 = Inr (rv, rvd', s4)" and
    d': "d' = setitem (setitem (setitem (setitem data (PStr ''tasks'') (PList ts))
            (PStr ''users'') (PList us)) (PStr ''announcements'') (PList ans))
            (PStr ''ranking_view'') rv" and
    r: "c = PRef (length s4)" "s' = s4 @ [(Contest, d')]"
    by blast
  have g: "py_getattr s' c ''tasks'' = Inr (PList ts)"
    "py_getattr s' c ''users'' = Inr (PList us)"
    "py_getattr s' c ''announcements'' = Inr (PList ans)"
    "py_getattr s' c ''ranking_view'' = Inr rv"
    using r d' by (simp_all add: py_getattr_last getitem_setitem)
  have f: "prefix s s1" "\<forall>t \<in> set ts. \<exists>r. t = PRef r \<and> length s \<le> r \<and> r < length s1"
    "prefix s1 s2" "\<forall>u \<in> set us. \<exists>r. u = PRef r \<and> length s1 \<le> r \<and> r < length s2"
    "prefix s2 s3" "\<forall>a \<in> set ans. \<exists>r. a = PRef r \<and> length s2 \<le> r \<and> r < length s3"
    "prefix s3 s4" "\<exists>r. rv = PRef r \<and> length s3 \<le> r \<and> r < length s4"
    using import_each_frame [OF framed_task st(3)] import_each_frame [OF framed_user st(6)]
      import_each_frame [OF framed_basic st(9)] framedD [OF framed_rankingview st(12)]
    by (simp_all add: fresh_in_iff)
  show "\<exists>tv trecs ts s1 uv urecs us s2 av arecs ans s3 rvv rvd rv rvd' s4.
         getitem data (PStr ''tasks'') = Inr tv \<and> py_iter tv = Inr trecs \<and>
         import_each (task_import_from_dict req) trecs s = Inr (ts, s1) \<and>
         getitem data (PStr ''users'') = Inr uv \<and> py_iter uv = Inr urecs \<and>
         import_each (user_import_from_dict req (PList ts)) urecs s1 = Inr (us, s2) \<and>
         getitem data (PStr ''announcements'') = Inr av \<and> py_iter av = Inr arecs \<and>
         import_each (basic_import_from_dict req Announcement) arecs s2 = Inr (ans, s3) \<and>
         getitem data (PStr ''ranking_view'') = Inr rvv \<and> as_record rvv = Inr rvd \<and>
         rankingview_import_from_dict req (PList ts) (PList us) rvd s3 = Inr (rv, rvd', s4) \<and>
         c = PRef (length s4) \<and> s' = s4 @ [(Contest, d')] \<and>
         py_getattr s' c ''tasks'' = Inr (PList ts) \<and>
         py_getattr s' c ''users'' = Inr (PList us) \<and>
         py_getattr s' c ''announcements'' = Inr (PList ans) \<and>
         py_getattr s' c ''ranking_view'' = Inr rv \<and>
         prefix s s1 \<and> prefix s1 s2 \<and> prefix s2 s3 \<and> prefix s3 s4 \<and>
         (\<forall>t \<in> set ts. \<exists>r. t = PRef r \<and> length s \<le> r \<and> r < length s1) \<and>
         (\<forall>u \<in> set us. \<exists>r. u = PRef r \<and> length s1 \<le> r \<and> r < length s2) \<and>
         (\<forall>a \<in> set ans. \<exists>r. a = PRef r \<and> length s2 \<le> r \<and> r < length s3) \<and>
         (\<exists>r. rv = PRef r \<and> length s3 \<le> r \<and> r < length s4)"
    using st r g f by blast
next
  assume "import_field (task_import_from_dict req) ''tasks'' data s = Inl e"
  then show "contest_import_from_dict req data s = Inl e"
    by (simp add: contest_import_from_dict_def)
next
  assume "import_field (task_import_from_dict req) ''tasks'' data s = Inr (d1, s1) \<and>
    getitem d1 (PStr ''users'') = Inr uv \<and> py_iter uv = Inr urecs \<and>
    getitem d1 (PStr ''tasks'') = Inr tasks \<and>
    import_each (user_import_from_dict req tasks) urecs s1 = Inl e"
  then show "contest_import_from_dict req data s = Inl e"
    by (simp add: contest_import_from_dict_def)
next
  assume "import_field (task_import_from_dict req) ''tasks'' data s = Inr (d1, s1) \<and>
    getitem d1 (PStr ''users'') = Inr uv \<and> py_iter uv = Inr urecs \<and>
    getitem d1 (PStr ''tasks'') = Inr tasks \<and>
    import_each (user_import_from_dict req tasks) urecs s1 = Inr (us, s2) \<and>
    import_field (basic_import_from_dict req Announcement) ''announcements''
      (setitem d1 (PStr ''users'') (PList us)) s2 = Inl e"
  then show "contest_import_from_dict req data s = Inl e"
    by (simp add: contest_import_from_dict_def)
next
  assume a: "import_field (task_import_from_dict req) ''tasks'' data s = Inr (d1, s1) \<and>
    getitem d1 (PStr ''users'') = Inr uv \<and> py_iter uv = Inr urecs \<and>
    getitem d1 (PStr ''tasks'') = Inr tasks \<and>
    import_each (user_import_from_dict req tasks) urecs s1 = Inr (us, s2) \<and>
    import_field (basic_import_from_dict req Announcement) ''announcements''
      (setitem d1 (PStr ''users'') (PList us)) s2 = Inr (d3, s3) \<and>
    getitem d3 (PStr ''ranking_view'') = Inr rvv \<and> as_record rvv = Inr rvd \<and>
    rankingview_import_from_dict req tasks (PList us) rvd s3 = Inl e"
  then have "getitem d3 (PStr ''tasks'') = Inr tasks" "getitem d3 (PStr ''users'') = Inr (PList us)"
    using import_field_other_key [of "basic_import_from_dict req Announcement" "''announcements''"
        "setitem d1 (PStr ''users'') (PList us)" s2 d3 s3]
    by (simp_all add: getitem_setitem)
  with a show "contest_import_from_dict req data s = Inl e"
    by (simp add: contest_import_from_dict_def)
qed

theorem contest_build_order_witness:
  "contest_import_from_dict demo_req demo_contest [] = Inr (PRef 5, demo_contest_built, demo_contest_store) \<and>
   (\<exists>ts us ans rv s1 s2 s3 s4.
      prefix [] s1 \<and> prefix s1 s2 \<and> prefix s2 s3 \<and> prefix s3 s4 \<and>
      demo_contest_store = s4 @ [(Contest, demo_contest_built)] \<and>
      py_getattr demo_contest_store (PRef 5) ''tasks'' = Inr (PList ts) \<and>
      py_getattr demo_contest_store (PRef 5) ''users'' = Inr (PList us) \<and>
      py_getattr demo_contest_store (PRef 5) ''announcements'' = Inr (PList ans) \<and>
      py_getattr demo_contest_store (PRef 5) ''ranking_view'' = Inr rv) \<and>
   contest_import_from_dict demo_req [] [] = Inl (KeyError (PStr ''tasks''))"
proof -
  have 1: "\<exists>ts us ans rv s1 s2 s3 s4.
      prefix [] s1 \<and> prefix s1 s2 \<and> prefix s2 s3 \<and> prefix s3 s4 \<and>
      demo_contest_store = s4 @ [(Contest, demo_contest_built)] \<and>
      py_getattr demo_contest_store (PRef 5) ''tasks'' = Inr (PList ts) \<and>
      py_getattr demo_contest_store (PRef 5) ''users'' = Inr (PList us) \<and>
      py_getattr demo_contest_store (PRef 5) ''announcements'' = Inr (PList ans) \<and>
      py_getattr demo_contest_store (PRef 5) ''ranking_view'' = Inr rv"
  proof -
    note t = contest_build_order [of demo_req demo_contest "[]" "PRef 5" demo_contest_built
        demo_contest_store, THEN conjunct1, THEN mp, OF demo_contest_run]
    from t obtain ts us ans rv s1 s2 s3 s4 where
      "prefix [] s1" "prefix s1 s2" "prefix s2 s3" "prefix s3 s4"
      "demo_contest_store = s4 @ [(Contest, demo_contest_built)]"
      "py_getattr demo_contest_store (PRef 5) ''tasks'' = Inr (PList ts)"
      "py_getattr demo_contest_store (PRef 5) ''users'' = Inr (PList us)"
      "py_getattr demo_contest_store (PRef 5) ''announcements'' = Inr (PList ans)"
      "py_getattr demo_contest_store (PRef 5) ''ranking_view'' = Inr rv"
      by (elim exE conjE)
    then show ?thesis
      by blast
  qed
  have e: "import_field (task_import_from_dict demo_req) ''tasks'' [] [] = Inl (KeyError (PStr ''tasks''))"
    by (simp add: import_field_def getitem_def)
  have 2: "contest_import_from_dict demo_req [] [] = Inl (KeyError (PStr ''tasks''))"
    by (rule contest_build_order [of demo_req "[]" "[]" _ _ _ "KeyError (PStr ''tasks'')",
          THEN conjunct2, THEN conjunct1, THEN mp, OF e])
  from 1 2 demo_contest_run show ?thesis by blast
qed

lemma py_getattr_eq_Inl: "py_getattr s v name = Inl e \<Longrightarrow> e = AttributeError"
  by (auto simp: py_getattr_def split: pyval.splits if_splits option.splits)

lemma find_user_eq_KeyError:
  "find_user s us n = Inl (KeyError k) \<longleftrightarrow>
     k = PStr ''User not found'' \<and>
     (\<forall>u \<in> set us. \<exists>m. py_getattr s u ''username'' = Inr m \<and> \<not> py_eq m n)"
proof (induction us)
  case Nil
  show ?case by auto
next
  case (Cons u us)
  show ?case
  proof (cases "py_getattr s u ''username''")
    case (Inl e)
    then have "e = AttributeError"
      by (rule py_getattr_eq_Inl)
    with Inl show ?thesis by simp
  next
    case (Inr m)
    with Cons show ?thesis by simp
  qed
qed

lemma find_user_eq_Inr:
  "find_user s us n = Inr u \<longleftrightarrow>
     (\<exists>j < length us. us ! j = u \<and>
        (\<forall>l < j. \<exists>m. py_getattr s (us ! l) ''username'' = Inr m \<and> \<not> py_eq m n) \<and>
        (\<exists>m. py_getattr s (us ! j) ''username'' = Inr m \<and> py_eq m n))"
proof (induction us)
  case Nil
  show ?case by simp
next
  case (Cons v us)
  let ?Q = "\<lambda>us j. us ! j = u \<and>
        (\<forall>l < j. \<exists>m. py_getattr s (us ! l) ''username'' = Inr m \<and> \<not> py_eq m n) \<and>
        (\<exists>m. py_getattr s (us ! j) ''username'' = Inr m \<and> py_eq m n)"
  show ?case
  proof (cases "py_getattr s v ''username''")
    case (Inl e)
    have "\<not> (\<exists>j < length (v # us). ?Q (v # us) j)"
    proof
      assume "\<exists>j < length (v # us). ?Q (v # us) j"
      then obtain j where j: "j < length (v # us)" "?Q (v # us) j" by blast
      show False
      proof (cases j)
        case 0
        with j(2) Inl show False by simp
      next
        case (Suc j')
        with j(2) have "\<exists>m. py_getattr s ((v # us) ! 0) ''username'' = Inr m \<and> \<not> py_eq m n"
          by blast
        with Inl show False by simp
      qed
    qed
    with Inl show ?thesis by simp
  next
    case (Inr m)
    show ?thesis
    proof (cases "py_eq m n")
      case True
      have "(\<exists>j < length (v # us). ?Q (v # us) j) \<longleftrightarrow> v = u"
      proof
        assume "\<exists>j < length (v # us). ?Q (v # us) j"
        then obtain j where j: "j < length (v # us)" "?Q (v # us) j" by blast
        show "v = u"
        proof (cases j)
          case 0
          with j(2) show ?thesis by simp
        next
          case (Suc j')
          with j(2) have "\<exists>m. py_getattr s ((v # us) ! 0) ''username'' = Inr m \<and> \<not> py_eq m n"
            by blast
          with Inr True show ?thesis by simp
        qed
      next
        assume "v = u"
        with Inr True have "0 < length (v # us) \<and> ?Q (v # us) 0"
          by simp
        then show "\<exists>j < length (v # us). ?Q (v # us) j"
          by blast
      qed
      with Inr True show ?thesis by simp
    next
      case False
      have "(\<exists>j < length (v # us). ?Q (v # us) j) \<longleftrightarrow> (\<exists>j < length us. ?Q us j)"
      proof
        assume "\<exists>j < length (v # us). ?Q (v # us) j"
        then obtain j where j: "j < length (v # us)" "?Q (v # us) j" by blast
        show "\<exists>j < length us. ?Q us j"
        proof (cases j)
          case 0
          with j(2) Inr False show ?thesis by simp
        next
          case (Suc j')
          have "\<forall>l < j'. \<exists>m. py_getattr s (us ! l) ''username'' = Inr m \<and> \<not> py_eq m n"
          proof (intro allI impI)
            fix l assume "l < j'"
            then have "Suc l < j" using Suc by simp
            with j(2) have "\<exists>m. py_getattr s ((v # us) ! Suc l) ''username'' = Inr m \<and> \<not> py_eq m n"
              by blast
            then show "\<exists>m. py_getattr s (us ! l) ''username'' = Inr m \<and> \<not> py_eq m n"
              by simp
          qed
          moreover from j Suc have "j' < length us" "us ! j' = u"
            "\<exists>m. py_getattr s (us ! j') ''username'' = Inr m \<and> py_eq m n"
            by auto
          ultimately have "j' < length us \<and> ?Q us j'"
            by blast
          then show ?thesis by blast
        qed
      next
        assume "\<exists>j < length us. ?Q us j"
        then obtain j where j: "j < length us" "?Q us j" by blast
        have "\<forall>l < Suc j. \<exists>m. py_getattr s ((v # us) ! l) ''username'' = Inr m \<and> \<not> py_eq m n"
        proof (intro allI impI)
          fix l assume l: "l < Suc j"
          show "\<exists>m. py_getattr s ((v # us) ! l) ''username'' = Inr m \<and> \<not> py_eq m n"
          proof (cases l)
            case 0
            with Inr False show ?thesis by simp
          next
            case (Suc l')
            with l j(2) show ?thesis by simp
          qed
        qed
        with j have "Suc j < length (v # us) \<and> ?Q (v # us) (Suc j)"
          by auto
        then show "\<exists>j < length (v # us). ?Q (v # us) j"
          by blast
      qed
      with Inr False Cons.IH show ?thesis by simp
    qed
  qed
qed

lemma accepted_Score_setitem:
  "accepted req c (setitem d k v) \<longleftrightarrow> accepted req c (setitem d k w)"
  by (simp add: accepted_def fst_set_setitem)

section \<open>Resolution of the user reference by username\<close>

text \<open>
  Claim C6, as the code has it. A score record's \<^verbatim>\<open>user\<close> field \<open>n\<close> is resolved by
  \<^verbatim>\<open>get_user\<close>, which scans the already-built user sequence from the front and
  compares usernames with \<^verbatim>\<open>==\<close>; the task reference is resolved before it. The import
  raises \<^verbatim>\<open>KeyError("User not found")\<close> (the spec's UserNotFound) if and only if the
  task reference resolves and every user of the sequence has a username, none of them
  equal to \<open>n\<close>. It succeeds if and only if the task reference resolves, some user has
  a username equal to \<open>n\<close>, every user before the first such has a username, and the
  constructor accepts the resolved record; the Score built then refers to that first
  user.
\<close>

theorem user_resolution:
  assumes "getitem data (PStr ''user'') = Inr n"
  shows "(score_import_from_dict req (PList ts) (PList us) data s =
            Inl (KeyError (PStr ''User not found'')) \<longleftrightarrow>
          (\<exists>i t. getitem data (PStr ''task'') = Inr i \<and> index_seq ts i = Inr t) \<and>
          (\<forall>u \<in> set us. \<exists>m. py_getattr s u ''username'' = Inr m \<and> \<not> py_eq m n)) \<and>
         (\<forall>obj d' s'.
            score_import_from_dict req (PList ts) (PList us) data s = Inr (obj, d', s') \<longleftrightarrow>
            (\<exists>i t j. getitem data (PStr ''task'') = Inr i \<and> index_seq ts i = Inr t \<and>
               j < length us \<and>
               (\<forall>l < j. \<exists>m. py_getattr s (us ! l) ''username'' = Inr m \<and> \<not> py_eq m n) \<and>
               (\<exists>m. py_getattr s (us ! j) ''username'' = Inr m \<and> py_eq m n) \<and>
               d' = setitem (setitem data (PStr ''task'') t) (PStr ''user'') (us ! j) \<and>
               accepted req Score d' \<and> obj = PRef (length s) \<and> s' = s @ [(Score, d')] \<and>
               py_getattr s' obj ''user'' = Inr (us ! j)))"
proof (intro conjI allI)
  show "score_import_from_dict req (PList ts) (PList us) data s =
            Inl (KeyError (PStr ''User not found'')) \<longleftrightarrow>
          (\<exists>i t. getitem data (PStr ''task'') = Inr i \<and> index_seq ts i = Inr t) \<and>
          (\<forall>u \<in> set us. \<exists>m. py_getattr s u ''username'' = Inr m \<and> \<not> py_eq m n)"
  proof (cases "getitem data (PStr ''task'')")
    case (Inl e)
    then have "e = KeyError (PStr ''task'')"
      by (simp add: getitem_def split: option.splits)
    with Inl show ?thesis
      by (simp add: score_import_from_dict_def)
  next
    case i: (Inr i)
    show ?thesis
    proof (cases "index_seq ts i")
      case (Inl e)
      then have "e = IndexError \<or> e = TypeError"
        by (auto simp: index_seq_def Let_def split: pyval.splits if_splits)
      with i Inl show ?thesis
        by (auto simp: score_import_from_dict_def)
    next
      case (Inr t)
      have "score_import_from_dict req (PList ts) (PList us) data s =
            Inl (KeyError (PStr ''User not found'')) \<longleftrightarrow>
          find_user s us n = Inl (KeyError (PStr ''User not found''))"
        using i Inr assms
        by (auto simp: score_import_from_dict_def Let_def getitem_setitem get_user_def
            py_iter_def andthen_eq_Inl construct_eq_Inl)
      with i Inr show ?thesis
        by (simp add: find_user_eq_KeyError)
    qed
  qed
next
  fix obj d' s'
  have "score_import_from_dict req (PList ts) (PList us) data s = Inr (obj, d', s') \<longleftrightarrow>
     (\<exists>i t u. getitem data (PStr ''task'') = Inr i \<and> index_seq ts i = Inr t \<and>
        find_user s us n = Inr u \<and>
        d' = setitem (setitem data (PStr ''task'') t) (PStr ''user'') u \<and>
        accepted req Score d' \<and> obj = PRef (length s) \<and> s' = s @ [(Score, d')])"
    using assms by (auto simp: score_import_eq_Inr get_user_def py_iter_def)
  also have "\<dots> \<longleftrightarrow>
     (\<exists>i t j. getitem data (PStr ''task'') = Inr i \<and> index_seq ts i = Inr t \<and>
               j < length us \<and>
               (\<forall>l < j. \<exists>m. py_getattr s (us ! l) ''username'' = Inr m \<and> \<not> py_eq m n) \<and>
               (\<exists>m. py_getattr s (us ! j) ''username'' = Inr m \<and> py_eq m n) \<and>
               d' = setitem (setitem data (PStr ''task'') t) (PStr ''user'') (us ! j) \<and>
               accepted req Score d' \<and> obj = PRef (length s) \<and> s' = s @ [(Score, d')])"
    unfolding find_user_eq_Inr by blast
  also have "\<dots> \<longleftrightarrow>
     (\<exists>i t j. getitem data (PStr ''task'') = Inr i \<and> index_seq ts i = Inr t \<and>
               j < length us \<and>
               (\<forall>l < j. \<exists>m. py_getattr s (us ! l) ''username'' = Inr m \<and> \<not> py_eq m n) \<and>
               (\<exists>m. py_getattr s (us ! j) ''username'' = Inr m \<and> py_eq m n) \<and>
               d' = setitem (setitem data (PStr ''task'') t) (PStr ''user'') (us ! j) \<and>
               accepted req Score d' \<and> obj = PRef (length s) \<and> s' = s @ [(Score, d')] \<and>
               py_getattr s' obj ''user'' = Inr (us ! j))" (is "?A \<longleftrightarrow> ?B")
  proof
    assume ?A
    then obtain i t j where a: "getitem data (PStr ''task'') = Inr i" "index_seq ts i = Inr t"
      "j < length us"
      "\<forall>l < j. \<exists>m. py_getattr s (us ! l) ''username'' = Inr m \<and> \<not> py_eq m n"
      "\<exists>m. py_getattr s (us ! j) ''username'' = Inr m \<and> py_eq m n"
      "d' = setitem (setitem data (PStr ''task'') t) (PStr ''user'') (us ! j)"
      "accepted req Score d'" "obj = PRef (length s)" "s' = s @ [(Score, d')]"
      by blast
    have "py_getattr s' obj ''user'' = Inr (us ! j)"
      using a(6,8,9) by (simp add: py_getattr_new map_of_setitem)
    with a show ?B by blast
  next
    assume ?B
    then show ?A by blast
  qed
  finally show "score_import_from_dict req (PList ts) (PList us) data s = Inr (obj, d', s') \<longleftrightarrow>
     (\<exists>i t j. getitem data (PStr ''task'') = Inr i \<and> index_seq ts i = Inr t \<and>
               j < length us \<and>
               (\<forall>l < j. \<exists>m. py_getattr s (us ! l) ''username'' = Inr m \<and> \<not> py_eq m n) \<and>
               (\<exists>m. py_getattr s (us ! j) ''username'' = Inr m \<and> py_eq m n) \<and>
               d' = setitem (setitem data (PStr ''task'') t) (PStr ''user'') (us ! j) \<and>
               accepted req Score d' \<and> obj = PRef (length s) \<and> s' = s @ [(Score, d')] \<and>
               py_getattr s' obj ''user'' = Inr (us ! j))" .
qed

theorem user_resolution_witness:
  "getitem (demo_score 0) (PStr ''user'') = Inr (PStr ''alice'') \<and>
   score_import_from_dict demo_req (PList [PRef 0]) (PList [PRef 1]) (demo_score 0) demo_store =
     Inr (PRef 2, [(PStr ''task'', PRef 0), (PStr ''user'', PRef 1)],
       demo_store @ [(Score, [(PStr ''task'', PRef 0), (PStr ''user'', PRef 1)])]) \<and>
   py_getattr (demo_store @ [(Score, [(PStr ''task'', PRef 0), (PStr ''user'', PRef 1)])])
     (PRef 2) ''user'' = Inr (PRef 1) \<and>
   getitem [(PStr ''task'', PInt 0), (PStr ''user'', PStr ''bob'')] (PStr ''user'') =
     Inr (PStr ''bob'') \<and>
   score_import_from_dict demo_req (PList [PRef 0]) (PList [PRef 1])
     [(PStr ''task'', PInt 0), (PStr ''user'', PStr ''bob'')] demo_store =
     Inl (KeyError (PStr ''User not found''))"
proof -
  have h: "getitem (demo_score 0) (PStr ''user'') = Inr (PStr ''alice'')"
    by (simp add: demo_score_def getitem_def)
  have k: "getitem [(PStr ''task'', PInt 0), (PStr ''user'', PStr ''bob'')] (PStr ''user'') =
     Inr (PStr ''bob'')"
    by (simp add: getitem_def)
  let ?d = "[(PStr ''task'', PRef 0), (PStr ''user'', PRef 1)]"
  have a: "score_import_from_dict demo_req (PList [PRef 0]) (PList [PRef 1]) (demo_score 0) demo_store =
     Inr (PRef 2, ?d, demo_store @ [(Score, ?d)])"
    using user_resolution [OF h, where req = demo_req and ts = "[PRef 0]" and us = "[PRef 1]"
        and s = demo_store, THEN conjunct2, rule_format, of "PRef 2" ?d "demo_store @ [(Score, ?d)]"]
    by (simp add: demo_score_def demo_store_def getitem_def index_seq_def py_getattr_def
        accepted_def)
  have b: "py_getattr (demo_store @ [(Score, ?d)]) (PRef 2) ''user'' = Inr (PRef 1)"
    using a user_resolution [OF h, where req = demo_req and ts = "[PRef 0]" and us = "[PRef 1]"
        and s = demo_store, THEN conjunct2, rule_format, of "PRef 2" ?d "demo_store @ [(Score, ?d)]"]
    by auto
  have c: "score_import_from_dict demo_req (PList [PRef 0]) (PList [PRef 1])
     [(PStr ''task'', PInt 0), (PStr ''user'', PStr ''bob'')] demo_store =
     Inl (KeyError (PStr ''User not found''))"
    using user_resolution [OF k, where req = demo_req and ts = "[PRef 0]" and us = "[PRef 1]"
        and s = demo_store, THEN conjunct1]
    by (simp add: demo_store_def getitem_def index_seq_def py_getattr_def)
  from h k a b c show ?thesis by simp
qed

text \<open>
  Read as "the import raises UserNotFound exactly when no user has the username", claim
  C6 fails: with one task and the one user \<^verbatim>\<open>alice\<close>, a score record for task 5 and
  user \<^verbatim>\<open>bob\<close> names no user of the sequence, and the import raises
  \<^verbatim>\<open>IndexError\<close>, not \<^verbatim>\<open>KeyError("User not found")\<close>.
\<close>

theorem user_resolution_counterexample:
  "py_getattr [(Task, [(PStr ''name'', PStr ''sum'')]), (User, [(PStr ''username'', PStr ''alice'')])]
     (PRef 1) ''username'' = Inr (PStr ''alice'') \<and>
   \<not> py_eq (PStr ''alice'') (PStr ''bob'') \<and>
   score_import_from_dict demo_req (PList [PRef 0]) (PList [PRef 1])
     [(PStr ''task'', PInt 5), (PStr ''user'', PStr ''bob'')]
     [(Task, [(PStr ''name'', PStr ''sum'')]), (User, [(PStr ''username'', PStr ''alice'')])] =
   Inl IndexError"
  by (simp add: eval_defs)

section \<open>Negative task indices\<close>

text \<open>
  Claim C10. For a submission or score record whose \<^verbatim>\<open>task\<close> field is a negative
  integer \<open>t\<close> with \<open>-n \<le> t \<le> -1\<close>, \<open>n\<close> the number of built tasks: the subscript
  \<^verbatim>\<open>tasks[t]\<close> yields the task at position \<open>n + t\<close> and the import does not raise
  \<^verbatim>\<open>IndexError\<close>. The score import then succeeds as soon as the user is found and the
  constructor accepts the resolved record, the submission import as soon as the
  sub-trees the submission owns are built and the constructor accepts the resolved
  record; the entity built refers to the task at position \<open>n + t\<close>. For any integer
  \<open>t\<close>, an \<^verbatim>\<open>IndexError\<close> of the import means \<open>t \<ge> n\<close> or \<open>t < -n\<close>.
\<close>

theorem negative_task_index:
  assumes "getitem data (PStr ''task'') = Inr (PInt t)"
  shows "(- int (length ts) \<le> t \<and> t \<le> - 1 \<longrightarrow>
            subscript (PList ts) (PInt t) = Inr (ts ! nat (int (length ts) + t)) \<and>
            score_import_from_dict req (PList ts) users data s \<noteq> Inl IndexError \<and>
            submission_import_from_dict req (PList ts) data s \<noteq> Inl IndexError \<and>
            (\<forall>n u d'. getitem data (PStr ''user'') = Inr n \<and> get_user s users n = Inr u \<and>
               d' = setitem (setitem data (PStr ''task'') (ts ! nat (int (length ts) + t)))
                      (PStr ''user'') u \<and>
               accepted req Score d' \<longrightarrow>
               score_import_from_dict req (PList ts) users data s =
                 Inr (PRef (length s), d', s @ [(Score, d')]) \<and>
               py_getattr (s @ [(Score, d')]) (PRef (length s)) ''task'' =
                 Inr (ts ! nat (int (length ts) + t))) \<and>
            (\<forall>d1 s1 d'. submission_owned req data s = Inr (d1, s1) \<and>
               d' = setitem (setitem d1 (PStr ''task'') (ts ! nat (int (length ts) + t)))
                      (PStr ''user'') PNone \<and>
               accepted req Submission d' \<longrightarrow>
               submission_import_from_dict req (PList ts) data s =
                 Inr (PRef (length s1), d', s1 @ [(Submission, d')]) \<and>
               py_getattr (s1 @ [(Submission, d')]) (PRef (length s1)) ''task'' =
                 Inr (ts ! nat (int (length ts) + t))) \<and>
            (\<forall>obj d' s'.
               score_import_from_dict req (PList ts) users data s = Inr (obj, d', s') \<or>
               submission_import_from_dict req (PList ts) data s = Inr (obj, d', s') \<longrightarrow>
               py_getattr s' obj ''task'' = Inr (ts ! nat (int (length ts) + t)))) \<and>
         (score_import_from_dict req (PList ts) users data s = Inl IndexError \<or>
          submission_import_from_dict req (PList ts) data s = Inl IndexError \<longrightarrow>
            int (length ts) \<le> t \<or> t < - int (length ts))"
proof (intro conjI impI)
  assume "score_import_from_dict req (PList ts) users data s = Inl IndexError \<or>
          submission_import_from_dict req (PList ts) data s = Inl IndexError"
  then show "int (length ts) \<le> t \<or> t < - int (length ts)"
    using score_import_IndexError [OF assms] submission_import_IndexError [OF assms] by blast
next
  assume r: "- int (length ts) \<le> t \<and> t \<le> - 1"
  let ?x = "ts ! nat (int (length ts) + t)"
  from r have i: "index_seq ts (PInt t) = Inr ?x"
    using index_seq_neg [of ts t] by simp
  then show "subscript (PList ts) (PInt t) = Inr ?x"
    by simp
  show "score_import_from_dict req (PList ts) users data s \<noteq> Inl IndexError"
    using r score_import_IndexError [OF assms] by simp
  show "submission_import_from_dict req (PList ts) data s \<noteq> Inl IndexError"
    using r submission_import_IndexError [OF assms] by simp
  show "\<forall>n u d'. getitem data (PStr ''user'') = Inr n \<and> get_user s users n = Inr u \<and>
               d' = setitem (setitem data (PStr ''task'') ?x) (PStr ''user'') u \<and>
               accepted req Score d' \<longrightarrow>
               score_import_from_dict req (PList ts) users data s =
                 Inr (PRef (length s), d', s @ [(Score, d')]) \<and>
               py_getattr (s @ [(Score, d')]) (PRef (length s)) ''task'' = Inr ?x"
  proof (intro allI impI, elim conjE)
    fix n u d'
    assume a: "getitem data (PStr ''user'') = Inr n" "get_user s users n = Inr u"
      "d' = setitem (setitem data (PStr ''task'') ?x) (PStr ''user'') u" "accepted req Score d'"
    have "score_import_from_dict req (PList ts) users data s =
                 Inr (PRef (length s), d', s @ [(Score, d')])"
      unfolding score_import_eq_Inr using assms i a by simp
    moreover have "py_getattr (s @ [(Score, d')]) (PRef (length s)) ''task'' = Inr ?x"
      using a(3) by (simp add: py_getattr_new map_of_setitem)
    ultimately show "score_import_from_dict req (PList ts) users data s =
                 Inr (PRef (length s), d', s @ [(Score, d')]) \<and>
               py_getattr (s @ [(Score, d')]) (PRef (length s)) ''task'' = Inr ?x"
      by simp
  qed
  show "\<forall>d1 s1 d'. submission_owned req data s = Inr (d1, s1) \<and>
               d' = setitem (setitem d1 (PStr ''task'') ?x) (PStr ''user'') PNone \<and>
               accepted req Submission d' \<longrightarrow>
               submission_import_from_dict req (PList ts) data s =
                 Inr (PRef (length s1), d', s1 @ [(Submission, d')]) \<and>
               py_getattr (s1 @ [(Submission, d')]) (PRef (length s1)) ''task'' = Inr ?x"
  proof (intro allI impI, elim conjE)
    fix d1 s1 d'
    assume a: "submission_owned req data s = Inr (d1, s1)"
      "d' = setitem (setitem d1 (PStr ''task'') ?x) (PStr ''user'') PNone"
      "accepted req Submission d'"
    have "getitem d1 (PStr ''task'') = Inr (PInt t)"
      using submission_owned_task_key [OF a(1)] assms by simp
    then have "submission_import_from_dict req (PList ts) data s =
                 Inr (PRef (length s1), d', s1 @ [(Submission, d')])"
      unfolding submission_import_eq_Inr using i a by simp
    moreover have "py_getattr (s1 @ [(Submission, d')]) (PRef (length s1)) ''task'' = Inr ?x"
      using a(2) by (simp add: py_getattr_new map_of_setitem)
    ultimately show "submission_import_from_dict req (PList ts) data s =
                 Inr (PRef (length s1), d', s1 @ [(Submission, d')]) \<and>
               py_getattr (s1 @ [(Submission, d')]) (PRef (length s1)) ''task'' = Inr ?x"
      by simp
  qed
  show "\<forall>obj d' s'.
               score_import_from_dict req (PList ts) users data s = Inr (obj, d', s') \<or>
               submission_import_from_dict req (PList ts) data s = Inr (obj, d', s') \<longrightarrow>
               py_getattr s' obj ''task'' = Inr ?x"
  proof (intro allI impI)
    fix obj d' s'
    assume "score_import_from_dict req (PList ts) users data s = Inr (obj, d', s') \<or>
            submission_import_from_dict req (PList ts) data s = Inr (obj, d', s')"
    then have "\<exists>j x. getitem data (PStr ''task'') = Inr j \<and> subscript (PList ts) j = Inr x \<and>
       py_getattr s' obj ''task'' = Inr x"
      using score_import_task submission_import_task by blast
    with assms i show "py_getattr s' obj ''task'' = Inr ?x"
      by auto
  qed
qed

theorem negative_task_index_witness:
  "getitem (demo_score (- 1)) (PStr ''task'') = Inr (PInt (- 1)) \<and>
   getitem (demo_submission (- 1)) (PStr ''task'') = Inr (PInt (- 1)) \<and>
   - int (length [PRef 0]) \<le> - 1 \<and> (- 1 :: int) \<le> - 1 \<and>
   score_import_from_dict demo_req (PList [PRef 0]) (PList [PRef 1]) (demo_score (- 1)) demo_store =
     Inr (PRef 2, [(PStr ''task'', PRef 0), (PStr ''user'', PRef 1)],
       demo_store @ [(Score, [(PStr ''task'', PRef 0), (PStr ''user'', PRef 1)])]) \<and>
   py_getattr (demo_store @ [(Score, [(PStr ''task'', PRef 0), (PStr ''user'', PRef 1)])])
     (PRef 2) ''task'' = Inr (PRef 0) \<and>
   (\<exists>d' s'. submission_import_from_dict demo_req (PList [PRef 0]) (demo_submission (- 1)) demo_store =
      Inr (PRef 2, d', s') \<and> py_getattr s' (PRef 2) ''task'' = Inr (PRef 0))"
proof -
  have h: "getitem (demo_score (- 1)) (PStr ''task'') = Inr (PInt (- 1))"
    by (simp add: demo_score_def getitem_def)
  have k: "getitem (demo_submission (- 1)) (PStr ''task'') = Inr (PInt (- 1))"
    by (simp add: demo_submission_def getitem_def)
  let ?d = "[(PStr ''task'', PRef 0), (PStr ''user'', PRef 1)]"
  have g: "get_user demo_store (PList [PRef 1]) (PStr ''alice'') = Inr (PRef 1)"
    by (simp add: get_user_def py_iter_def py_getattr_def demo_store_def)
  have a: "score_import_from_dict demo_req (PList [PRef 0]) (PList [PRef 1]) (demo_score (- 1)) demo_store =
     Inr (PRef 2, ?d, demo_store @ [(Score, ?d)]) \<and>
     py_getattr (demo_store @ [(Score, ?d)]) (PRef 2) ''task'' = Inr (PRef 0)"
    using negative_task_index [OF h, where req = demo_req and ts = "[PRef 0]"
        and users = "PList [PRef 1]" and s = demo_store, THEN conjunct1, THEN mp,
        THEN conjunct2, THEN conjunct2, THEN conjunct2, THEN conjunct1, rule_format,
        of "PStr ''alice''" "PRef 1" ?d] g
    by (simp add: demo_score_def getitem_def accepted_def demo_store_def py_getattr_def)
  let ?e = "[(PStr ''task'', PRef 0), (PStr ''files'', PDict []),
            (PStr ''executables'', PDict []), (PStr ''evaluations'', PList []),
            (PStr ''token'', PNone), (PStr ''user'', PNone)]"
  have b: "submission_import_from_dict demo_req (PList [PRef 0]) (demo_submission (- 1)) demo_store =
     Inr (PRef 2, ?e, demo_store @ [(Submission, ?e)]) \<and>
     py_getattr (demo_store @ [(Submission, ?e)]) (PRef 2) ''task'' = Inr (PRef 0)"
    using negative_task_index [OF k, where req = demo_req and ts = "[PRef 0]"
        and users = "PList [PRef 1]" and s = demo_store, THEN conjunct1, THEN mp,
        THEN conjunct2, THEN conjunct2, THEN conjunct2, THEN conjunct2, THEN conjunct1,
        rule_format, OF _ conjI, OF _ demo_submission_owned [of "- 1"], of ?e]
    by (simp add: accepted_def demo_store_def py_getattr_def)
  from h k a b show ?thesis by auto
qed

subsection \<open>What the owned sub-trees of a submission hold\<close>








section \<open>Effects of the context-resolving builders\<close>





subsection \<open>Records that are imported without error\<close>

lemma accepted_keys: "fst ` set d = fst ` set d' \<Longrightarrow> accepted req c d = accepted req c d'"
  by (simp add: accepted_def)

lemma getitem_eq_map_of: "getitem d k = getitem d' k \<longleftrightarrow> map_of d k = map_of d' k"
  by (auto simp: getitem_def split: option.splits)

lemma map_of_keys: "map_of d k = Some v \<Longrightarrow> k \<in> fst ` set d"
  by (metis domI dom_map_of_conv_image_fst)

lemma all_records:
  "\<forall>x \<in> set xs. case x of PDict r \<Rightarrow> P r | _ \<Rightarrow> False \<Longrightarrow>
     \<exists>rs. xs = map PDict rs \<and> (\<forall>r \<in> set rs. P r)"
proof (induction xs)
  case Nil
  then show ?case by simp
next
  case (Cons x xs)
  then obtain rs where rs: "xs = map PDict rs" "\<forall>r \<in> set rs. P r"
    by auto
  from Cons.prems obtain r where r: "x = PDict r" "P r"
    by (cases x) auto
  from r rs have "x # xs = map PDict (r # rs) \<and> (\<forall>r \<in> set (r # rs). P r)"
    by simp
  then show ?case by (rule exI)
qed

lemma import_field_basic_succeeds:
  assumes "leaves_ok req c data key"
  shows "\<exists>d' s'. import_field (basic_import_from_dict req c) key data s = Inr (d', s') \<and>
     fst ` set d' = fst ` set data \<and> (\<forall>k. k \<noteq> PStr key \<longrightarrow> map_of d' k = map_of data k)"
proof -
  from assms obtain xs where xs: "map_of data (PStr key) = Some (PList xs)"
    "\<forall>x \<in> set xs. case x of PDict r \<Rightarrow> accepted req c r | _ \<Rightarrow> False"
    by (auto simp: leaves_ok_def split: option.splits pyval.splits)
  from all_records [OF xs(2)] obtain rs where rs: "xs = map PDict rs" "\<forall>r \<in> set rs. accepted req c r"
    by blast
  from import_each_basic_succeeds [OF rs(2), of s] obtain objs where
    "import_each (basic_import_from_dict req c) (map PDict rs) s = Inr (objs, s @ map (Pair c) rs)"
    by blast
  with xs(1) rs(1) have "import_field (basic_import_from_dict req c) key data s =
     Inr (setitem data (PStr key) (PList objs), s @ map (Pair c) rs)"
    by (simp add: import_field_def getitem_def py_iter_def)
  moreover have "fst ` set (setitem data (PStr key) (PList objs)) = fst ` set data"
    using map_of_keys [OF xs(1)] by (auto simp: fst_set_setitem)
  moreover have "\<forall>k. k \<noteq> PStr key \<longrightarrow> map_of (setitem data (PStr key) (PList objs)) k = map_of data k"
    by (simp add: map_of_setitem)
  ultimately show ?thesis by blast
qed

lemma import_keyed_named_succeeds:
  assumes "named_ok req c data key"
  shows "\<exists>d' s'. import_keyed req c key data s = Inr (d', s') \<and>
     fst ` set d' = fst ` set data \<and> (\<forall>k. k \<noteq> PStr key \<longrightarrow> map_of d' k = map_of data k)"
proof -
  let ?P = "\<lambda>r. accepted req c r \<and>
     (case map_of r (PStr ''filename'') of Some fn \<Rightarrow> hashable fn | None \<Rightarrow> False)"
  from assms obtain xs where xs: "map_of data (PStr key) = Some (PList xs)"
    "\<forall>x \<in> set xs. case x of PDict r \<Rightarrow> ?P r | _ \<Rightarrow> False"
    by (auto simp: named_ok_def split: option.splits pyval.splits)
  from all_records [of xs ?P, OF xs(2)] obtain rs where rs: "xs = map PDict rs" "\<forall>r \<in> set rs. ?P r"
    by blast
  have g: "getitem data (PStr key) = Inr (PList (map PDict rs))"
    using xs(1) rs(1) by (simp add: getitem_def)
  have wf: "\<forall>r \<in> set rs. accepted req c r \<and>
       (\<exists>fn. map_of r (PStr ''filename'') = Some fn \<and> hashable fn)"
    using rs(2) by (auto split: option.splits)
  from import_keyed_succeeds [OF g wf, of s] obtain d' where
    d': "import_keyed req c key data s = Inr (d', s @ map (Pair c) rs)"
    by blast
  have "\<forall>k. k \<noteq> PStr key \<longrightarrow> map_of d' k = map_of data k"
    using import_keyed_other_key [OF d'] by (simp add: getitem_eq_map_of)
  moreover have "fst ` set d' = fst ` set data"
  proof -
    from d' obtain v w where "d' = setitem (setitem data (PStr key) v) (PStr key) w"
      by (auto simp: import_keyed_eq_Inr import_field_eq_Inr key_field_eq_Inr)
    then show ?thesis
      using map_of_keys [OF xs(1)] by (auto simp: fst_set_setitem)
  qed
  ultimately show ?thesis
    using d' by blast
qed

lemma leaves_ok_cong:
  "map_of d (PStr key) = map_of d' (PStr key) \<Longrightarrow> leaves_ok req c d key = leaves_ok req c d' key"
  by (simp add: leaves_ok_def)

lemma named_ok_cong:
  "map_of d (PStr key) = map_of d' (PStr key) \<Longrightarrow> named_ok req c d key = named_ok req c d' key"
  by (simp add: named_ok_def)

lemma task_import_succeeds:
  assumes "task_record_ok req data"
  shows "\<exists>obj d' s'. task_import_from_dict req data s = Inr (obj, d', s')"
proof -
  from assms have ok: "named_ok req Attachment data ''attachments''"
    "leaves_ok req SubmissionFormatElement data ''submission_format''"
    "named_ok req Manager data ''managers''"
    "leaves_ok req Testcase data ''testcases''" "accepted req Task data"
    by (simp_all add: task_record_ok_def)
  from import_keyed_named_succeeds [OF ok(1), of s] obtain d1 s1 where
    a: "import_keyed req Attachment ''attachments'' data s = Inr (d1, s1)"
    "fst ` set d1 = fst ` set data" "\<forall>k. k \<noteq> PStr ''attachments'' \<longrightarrow> map_of d1 k = map_of data k"
    by blast
  have "leaves_ok req SubmissionFormatElement d1 ''submission_format''"
    using ok(2) a(3) leaves_ok_cong [of d1 "''submission_format''" data] by simp
  from import_field_basic_succeeds [OF this, of s1] obtain d2 s2 where
    b: "import_field (basic_import_from_dict req SubmissionFormatElement) ''submission_format'' d1 s1 =
       Inr (d2, s2)"
    "fst ` set d2 = fst ` set d1" "\<forall>k. k \<noteq> PStr ''submission_format'' \<longrightarrow> map_of d2 k = map_of d1 k"
    by blast
  have "named_ok req Manager d2 ''managers''"
    using ok(3) a(3) b(3) named_ok_cong [of d2 "''managers''" data] by simp
  from import_keyed_named_succeeds [OF this, of s2] obtain d3 s3 where
    c: "import_keyed req Manager ''managers'' d2 s2 = Inr (d3, s3)"
    "fst ` set d3 = fst ` set d2" "\<forall>k. k \<noteq> PStr ''managers'' \<longrightarrow> map_of d3 k = map_of d2 k"
    by blast
  have "leaves_ok req Testcase d3 ''testcases''"
    using ok(4) a(3) b(3) c(3) leaves_ok_cong [of d3 "''testcases''" data] by simp
  from import_field_basic_succeeds [OF this, of s3] obtain d4 s4 where
    e: "import_field (basic_import_from_dict req Testcase) ''testcases'' d3 s3 = Inr (d4, s4)"
    "fst ` set d4 = fst ` set d3"
    by blast
  have "accepted req Task d4"
    using ok(5) accepted_keys [of d4 data] a(2) b(2) c(2) e(2) by simp
  with a(1) b(1) c(1) e(1) have
    "task_import_from_dict req data s = Inr (PRef (length s4), d4, s4 @ [(Task, d4)])"
    unfolding task_import_eq_Inr by blast
  then show ?thesis by blast
qed

lemma submission_owned_succeeds:
  assumes "named_ok req File data ''files''" "named_ok req Executable data ''executables''"
    "leaves_ok req Evaluation data ''evaluations''"
    "case map_of data (PStr ''token'') of Some PNone \<Rightarrow> True
      | Some (PDict r) \<Rightarrow> accepted req Token r | _ \<Rightarrow> False"
  shows "\<exists>d' s'. submission_owned req data s = Inr (d', s') \<and> fst ` set d' = fst ` set data"
proof -
  from import_keyed_named_succeeds [OF assms(1), of s] obtain d1 s1 where
    a: "import_keyed req File ''files'' data s = Inr (d1, s1)"
    "fst ` set d1 = fst ` set data" "\<forall>k. k \<noteq> PStr ''files'' \<longrightarrow> map_of d1 k = map_of data k"
    by blast
  have "named_ok req Executable d1 ''executables''"
    using assms(2) a(3) named_ok_cong [of d1 "''executables''" data] by simp
  from import_keyed_named_succeeds [OF this, of s1] obtain d2 s2 where
    b: "import_keyed req Executable ''executables'' d1 s1 = Inr (d2, s2)"
    "fst ` set d2 = fst ` set d1" "\<forall>k. k \<noteq> PStr ''executables'' \<longrightarrow> map_of d2 k = map_of d1 k"
    by blast
  have "leaves_ok req Evaluation d2 ''evaluations''"
    using assms(3) a(3) b(3) leaves_ok_cong [of d2 "''evaluations''" data] by simp
  from import_field_basic_succeeds [OF this, of s2] obtain d3 s3 where
    c: "import_field (basic_import_from_dict req Evaluation) ''evaluations'' d2 s2 = Inr (d3, s3)"
    "fst ` set d3 = fst ` set d2" "\<forall>k. k \<noteq> PStr ''evaluations'' \<longrightarrow> map_of d3 k = map_of d2 k"
    by blast
  have t: "map_of d3 (PStr ''token'') = map_of data (PStr ''token'')"
    using a(3) b(3) c(3) by simp
  have k: "fst ` set d3 = fst ` set data"
    using a(2) b(2) c(2) by simp
  have "\<exists>d' s'. import_token req d3 s3 = Inr (d', s') \<and> fst ` set d' = fst ` set d3"
  proof (cases "map_of data (PStr ''token'') = Some PNone")
    case True
    with t show ?thesis
      by (simp add: import_token_def getitem_def)
  next
    case False
    with assms(4) obtain r where r: "map_of data (PStr ''token'') = Some (PDict r)"
      "accepted req Token r"
      by (auto split: option.splits pyval.splits)
    have "PStr ''token'' \<in> fst ` set d3"
      using t r(1) map_of_keys [of d3 "PStr ''token''"] by simp
    then have "fst ` set (setitem d3 (PStr ''token'') (PRef (length s3))) = fst ` set d3"
      by (auto simp: fst_set_setitem)
    moreover have "import_token req d3 s3 =
       Inr (setitem d3 (PStr ''token'') (PRef (length s3)), s3 @ [(Token, r)])"
      using t r by (simp add: import_token_def getitem_def as_record_def
          basic_import_from_dict_def construct_def)
    ultimately show ?thesis by blast
  qed
  then obtain d4 s4 where e: "import_token req d3 s3 = Inr (d4, s4)" "fst ` set d4 = fst ` set d3"
    by blast
  from a(1) b(1) c(1) e(1) have "submission_owned req data s = Inr (d4, s4)"
    by (simp add: submission_owned_def)
  with e(2) k show ?thesis by simp
qed

lemma submission_import_succeeds:
  assumes "submission_record_ok req (length ts) data"
  shows "\<exists>obj d' s'. submission_import_from_dict req (PList ts) data s = Inr (obj, d', s')"
proof -
  from assms have ok: "named_ok req File data ''files''" "named_ok req Executable data ''executables''"
    "leaves_ok req Evaluation data ''evaluations''"
    "case map_of data (PStr ''token'') of Some PNone \<Rightarrow> True
      | Some (PDict r) \<Rightarrow> accepted req Token r | _ \<Rightarrow> False"
    "case map_of data (PStr ''task'') of
        Some (PInt t) \<Rightarrow> - int (length ts) \<le> t \<and> t < int (length ts) | _ \<Rightarrow> False"
    "accepted req Submission (setitem data (PStr ''user'') PNone)"
    by (simp_all add: submission_record_ok_def)
  from submission_owned_succeeds [OF ok(1-4), of s] obtain d1 s1 where
    o: "submission_owned req data s = Inr (d1, s1)" "fst ` set d1 = fst ` set data"
    by blast
  from ok(5) obtain t where t: "map_of data (PStr ''task'') = Some (PInt t)"
    "- int (length ts) \<le> t" "t < int (length ts)"
    by (auto split: option.splits pyval.splits)
  have g: "getitem d1 (PStr ''task'') = Inr (PInt t)"
    using submission_owned_task_key [OF o(1)] t(1) by (simp add: getitem_def)
  have "\<exists>x. index_seq ts (PInt t) = Inr x"
    using t(2,3) index_seq_neg [of ts t] index_seq_nonneg [of t ts] by (cases "t < 0") simp_all
  then obtain x where x: "index_seq ts (PInt t) = Inr x" ..
  let ?d = "setitem (setitem d1 (PStr ''task'') x) (PStr ''user'') PNone"
  have "PStr ''task'' \<in> fst ` set data"
    using map_of_keys [OF t(1)] .
  then have "fst ` set ?d = fst ` set (setitem data (PStr ''user'') PNone)"
    using o(2) by (auto simp: fst_set_setitem)
  then have "accepted req Submission ?d"
    using ok(6) accepted_keys by blast
  with o(1) g x have "submission_import_from_dict req (PList ts) data s =
     Inr (PRef (length s1), ?d, s1 @ [(Submission, ?d)])"
    unfolding submission_import_eq_Inr by simp
  then show ?thesis by blast
qed

section \<open>Two records with the same filename\<close>

text \<open>
  Claim C9. Let two records \<open>i < j\<close> of the serialized sequence of a keyed collection (a
  task's \<^verbatim>\<open>attachments\<close> or \<^verbatim>\<open>managers\<close>, a submission's \<^verbatim>\<open>files\<close> or
  \<^verbatim>\<open>executables\<close>) have the same filename, \<open>j\<close> being the last record with it. The
  import of the task or submission succeeds whenever the record is otherwise in order:
  the owned sequences are lists of records the constructors accept, the keyed ones with
  hashable filenames, a submission's token is \<^verbatim>\<open>None\<close> or such a record and its task
  index is in range, and the constructor accepts the task or submission itself. Whenever
  the import succeeds, the entity's mapping binds the filename to the object built from
  record \<open>j\<close>, and the object built from record \<open>i\<close> is not a value of the mapping.
  The objects of the sequence sit at consecutive addresses from some \<open>base\<close> on, record
  \<open>l\<close> at \<open>base + l\<close>.
\<close>

theorem later_record_wins:
  assumes "getitem data (PStr key) = Inr (PList recs)"
    and "i < j" and "j < length recs"
    and "recs ! i = PDict ri" and "map_of ri (PStr ''filename'') = Some fn"
    and "recs ! j = PDict rj" and "map_of rj (PStr ''filename'') = Some fn"
    and "\<forall>l r. j < l \<and> l < length recs \<and> recs ! l = PDict r \<longrightarrow>
           map_of r (PStr ''filename'') \<noteq> Some fn"
  shows "(task_record_ok req data \<longrightarrow>
            (\<exists>obj d' s'. task_import_from_dict req data s = Inr (obj, d', s'))) \<and>
         (submission_record_ok req (length ts) data \<longrightarrow>
            (\<exists>obj d' s'. submission_import_from_dict req (PList ts) data s = Inr (obj, d', s'))) \<and>
         (\<forall>tasks obj d' s'.
            task_import_from_dict req data s = Inr (obj, d', s') \<and>
              ((key, c) = (''attachments'', Attachment) \<or> (key, c) = (''managers'', Manager)) \<or>
            submission_import_from_dict req tasks data s = Inr (obj, d', s') \<and>
              ((key, c) = (''files'', File) \<or> (key, c) = (''executables'', Executable)) \<longrightarrow>
            (\<exists>m base. py_getattr s' obj key = Inr (PDict m) \<and>
               base + j < length s' \<and> s' ! (base + i) = (c, ri) \<and> s' ! (base + j) = (c, rj) \<and>
               map_of m fn = Some (PRef (base + j)) \<and> PRef (base + i) \<notin> snd ` set m))"
proof (intro conjI allI impI)
  assume "task_record_ok req data"
  then show "\<exists>obj d' s'. task_import_from_dict req data s = Inr (obj, d', s')"
    by (rule task_import_succeeds)
next
  assume "submission_record_ok req (length ts) data"
  then show "\<exists>obj d' s'. submission_import_from_dict req (PList ts) data s = Inr (obj, d', s')"
    by (rule submission_import_succeeds)
next
  fix tasks obj d' s'
  assume a: "task_import_from_dict req data s = Inr (obj, d', s') \<and>
              ((key, c) = (''attachments'', Attachment) \<or> (key, c) = (''managers'', Manager)) \<or>
            submission_import_from_dict req tasks data s = Inr (obj, d', s') \<and>
              ((key, c) = (''files'', File) \<or> (key, c) = (''executables'', Executable))"
  have "\<exists>m base. py_getattr s' obj key = Inr (PDict m) \<and> keyed_from s' c recs base m"
    using a
  proof (elim disjE conjE)
    assume "task_import_from_dict req data s = Inr (obj, d', s')" "(key, c) = (''attachments'', Attachment)"
    with assms(1) task_attachments_keyed [of req data s obj d' s' recs] show ?thesis
      by auto
  next
    assume "task_import_from_dict req data s = Inr (obj, d', s')" "(key, c) = (''managers'', Manager)"
    with assms(1) task_managers_keyed [of req data s obj d' s' recs] show ?thesis
      by auto
  next
    assume "submission_import_from_dict req tasks data s = Inr (obj, d', s')" "(key, c) = (''files'', File)"
    with assms(1) submission_keyed [of req tasks data s obj d' s' key recs c] show ?thesis
      by auto
  next
    assume "submission_import_from_dict req tasks data s = Inr (obj, d', s')"
      "(key, c) = (''executables'', Executable)"
    with assms(1) submission_keyed [of req tasks data s obj d' s' key recs c] show ?thesis
      by auto
  qed
  then obtain m base where m: "py_getattr s' obj key = Inr (PDict m)" "keyed_from s' c recs base m"
    by blast
  from keyed_from_later_wins [OF m(2) assms(2-8)] m(1)
  show "\<exists>m base. py_getattr s' obj key = Inr (PDict m) \<and>
               base + j < length s' \<and> s' ! (base + i) = (c, ri) \<and> s' ! (base + j) = (c, rj) \<and>
               map_of m fn = Some (PRef (base + j)) \<and> PRef (base + i) \<notin> snd ` set m"
    by blast
qed

theorem later_record_wins_witness:
  "(\<exists>obj d' s' m base. task_import_from_dict demo_req demo_task [] = Inr (obj, d', s') \<and>
      py_getattr s' obj ''attachments'' = Inr (PDict m) \<and>
      s' ! (base + 0) =
        (Attachment, [(PStr ''filename'', PStr ''grader.cpp''), (PStr ''digest'', PStr ''d1'')]) \<and>
      s' ! (base + 1) =
        (Attachment, [(PStr ''filename'', PStr ''grader.cpp''), (PStr ''digest'', PStr ''d2'')]) \<and>
      map_of m (PStr ''grader.cpp'') = Some (PRef (base + 1)) \<and>
      PRef (base + 0) \<notin> snd ` set m) \<and>
   (\<exists>obj d' s' m base.
      submission_import_from_dict demo_req (PList [PRef 0]) demo_two_files demo_store =
        Inr (obj, d', s') \<and>
      py_getattr s' obj ''files'' = Inr (PDict m) \<and>
      s' ! (base + 0) =
        (File, [(PStr ''filename'', PStr ''a.cpp''), (PStr ''digest'', PStr ''d1'')]) \<and>
      s' ! (base + 1) =
        (File, [(PStr ''filename'', PStr ''a.cpp''), (PStr ''digest'', PStr ''d2'')]) \<and>
      map_of m (PStr ''a.cpp'') = Some (PRef (base + 1)) \<and>
      PRef (base + 0) \<notin> snd ` set m)"
proof -
  let ?r1 = "[(PStr ''filename'', PStr ''grader.cpp''), (PStr ''digest'', PStr ''d1'')]"
  let ?r2 = "[(PStr ''filename'', PStr ''grader.cpp''), (PStr ''digest'', PStr ''d2'')]"
  have h1: "getitem demo_task (PStr ''attachments'') = Inr (PList [PDict ?r1, PDict ?r2])"
    by (simp add: demo_task_def getitem_def)
  have h2: "(0::nat) < 1" "1 < length [PDict ?r1, PDict ?r2]"
    "[PDict ?r1, PDict ?r2] ! 0 = PDict ?r1" "map_of ?r1 (PStr ''filename'') = Some (PStr ''grader.cpp'')"
    "[PDict ?r1, PDict ?r2] ! 1 = PDict ?r2" "map_of ?r2 (PStr ''filename'') = Some (PStr ''grader.cpp'')"
    "\<forall>l r. 1 < l \<and> l < length [PDict ?r1, PDict ?r2] \<and> [PDict ?r1, PDict ?r2] ! l = PDict r \<longrightarrow>
           map_of r (PStr ''filename'') \<noteq> Some (PStr ''grader.cpp'')"
    by auto
  have ok1: "task_record_ok demo_req demo_task"
    by (simp add: task_record_ok_def named_ok_def leaves_ok_def accepted_def demo_task_def)
  note t = later_record_wins [OF h1 h2, where req = demo_req and s = "[]" and c = Attachment]
  from t [THEN conjunct1, THEN mp, OF ok1] obtain obj d' s' where
    r: "task_import_from_dict demo_req demo_task [] = Inr (obj, d', s')"
    by blast
  from t [THEN conjunct2, THEN conjunct2, rule_format, where obj = obj and d' = d' and s' = s'] r
  obtain m base where "py_getattr s' obj ''attachments'' = Inr (PDict m)"
    "s' ! (base + 0) = (Attachment, ?r1)" "s' ! (base + 1) = (Attachment, ?r2)"
    "map_of m (PStr ''grader.cpp'') = Some (PRef (base + 1))" "PRef (base + 0) \<notin> snd ` set m"
    by auto
  with r have 1: "\<exists>obj d' s' m base. task_import_from_dict demo_req demo_task [] = Inr (obj, d', s') \<and>
      py_getattr s' obj ''attachments'' = Inr (PDict m) \<and>
      s' ! (base + 0) = (Attachment, ?r1) \<and> s' ! (base + 1) = (Attachment, ?r2) \<and>
      map_of m (PStr ''grader.cpp'') = Some (PRef (base + 1)) \<and>
      PRef (base + 0) \<notin> snd ` set m"
    by blast
  let ?f1 = "[(PStr ''filename'', PStr ''a.cpp''), (PStr ''digest'', PStr ''d1'')]"
  let ?f2 = "[(PStr ''filename'', PStr ''a.cpp''), (PStr ''digest'', PStr ''d2'')]"
  have k1: "getitem demo_two_files (PStr ''files'') = Inr (PList [PDict ?f1, PDict ?f2])"
    by (simp add: demo_two_files_def getitem_def)
  have k2: "(0::nat) < 1" "1 < length [PDict ?f1, PDict ?f2]"
    "[PDict ?f1, PDict ?f2] ! 0 = PDict ?f1" "map_of ?f1 (PStr ''filename'') = Some (PStr ''a.cpp'')"
    "[PDict ?f1, PDict ?f2] ! 1 = PDict ?f2" "map_of ?f2 (PStr ''filename'') = Some (PStr ''a.cpp'')"
    "\<forall>l r. 1 < l \<and> l < length [PDict ?f1, PDict ?f2] \<and> [PDict ?f1, PDict ?f2] ! l = PDict r \<longrightarrow>
           map_of r (PStr ''filename'') \<noteq> Some (PStr ''a.cpp'')"
    by auto
  have ok2: "submission_record_ok demo_req (length [PRef 0]) demo_two_files"
    by (simp add: submission_record_ok_def named_ok_def leaves_ok_def accepted_def
        demo_two_files_def)
  note u = later_record_wins [OF k1 k2, where req = demo_req and s = demo_store and c = File
      and ts = "[PRef 0]"]
  from u [THEN conjunct2, THEN conjunct1, THEN mp, OF ok2] obtain obj2 d2 s2 where
    r2: "submission_import_from_dict demo_req (PList [PRef 0]) demo_two_files demo_store =
      Inr (obj2, d2, s2)"
    by blast
  from u [THEN conjunct2, THEN conjunct2, rule_format, where tasks = "PList [PRef 0]"
      and obj = obj2 and d' = d2 and s' = s2] r2
  obtain m2 base2 where "py_getattr s2 obj2 ''files'' = Inr (PDict m2)"
    "s2 ! (base2 + 0) = (File, ?f1)" "s2 ! (base2 + 1) = (File, ?f2)"
    "map_of m2 (PStr ''a.cpp'') = Some (PRef (base2 + 1))" "PRef (base2 + 0) \<notin> snd ` set m2"
    by auto
  with r2 have 2: "\<exists>obj d' s' m base.
      submission_import_from_dict demo_req (PList [PRef 0]) demo_two_files demo_store =
        Inr (obj, d', s') \<and>
      py_getattr s' obj ''files'' = Inr (PDict m) \<and>
      s' ! (base + 0) = (File, ?f1) \<and> s' ! (base + 1) = (File, ?f2) \<and>
      map_of m (PStr ''a.cpp'') = Some (PRef (base + 1)) \<and>
      PRef (base + 0) \<notin> snd ` set m"
    by blast
  from 1 2 show ?thesis by (rule conjI)
qed

section \<open>Keyed collections have no duplicate check\<close>

text \<open>
  Claim C2, as the code has it. The keyed collections are built by
  \<^verbatim>\<open>dict([(x.filename, x) for x in ...])\<close>, which has no uniqueness check and no
  DuplicateKey failure. For a sequence of records \<open>rs\<close>: in the mapping of a
  successfully imported task (attachments, managers) or submission (files, executables)
  the object built from record \<open>j\<close> is bound under its filename if and only if no later
  record of the sequence has the same filename. So an entity is overwritten by a later
  one with its key, and every entity is kept when the filenames are pairwise distinct.
\<close>

theorem keyed_collection_binding:
  assumes "getitem data (PStr key) = Inr (PList (map PDict rs))"
  shows "\<forall>tasks obj d' s'.
            task_import_from_dict req data s = Inr (obj, d', s') \<and>
              ((key, c) = (''attachments'', Attachment) \<or> (key, c) = (''managers'', Manager)) \<or>
            submission_import_from_dict req tasks data s = Inr (obj, d', s') \<and>
              ((key, c) = (''files'', File) \<or> (key, c) = (''executables'', Executable)) \<longrightarrow>
            (\<exists>m base. py_getattr s' obj key = Inr (PDict m) \<and>
               (\<forall>j fn. j < length rs \<and> map_of (rs ! j) (PStr ''filename'') = Some fn \<longrightarrow>
                  s' ! (base + j) = (c, rs ! j) \<and>
                  (map_of m fn = Some (PRef (base + j)) \<longleftrightarrow>
                     (\<forall>l. j < l \<and> l < length rs \<longrightarrow>
                        map_of (rs ! l) (PStr ''filename'') \<noteq> Some fn))))"
proof (intro allI impI)
  fix tasks obj d' s'
  assume a: "task_import_from_dict req data s = Inr (obj, d', s') \<and>
              ((key, c) = (''attachments'', Attachment) \<or> (key, c) = (''managers'', Manager)) \<or>
            submission_import_from_dict req tasks data s = Inr (obj, d', s') \<and>
              ((key, c) = (''files'', File) \<or> (key, c) = (''executables'', Executable))"
  have "\<exists>m base. py_getattr s' obj key = Inr (PDict m) \<and> keyed_from s' c (map PDict rs) base m"
    using a
  proof (elim disjE conjE)
    assume "task_import_from_dict req data s = Inr (obj, d', s')" "(key, c) = (''attachments'', Attachment)"
    with assms task_attachments_keyed [of req data s obj d' s' "map PDict rs"] show ?thesis
      by auto
  next
    assume "task_import_from_dict req data s = Inr (obj, d', s')" "(key, c) = (''managers'', Manager)"
    with assms task_managers_keyed [of req data s obj d' s' "map PDict rs"] show ?thesis
      by auto
  next
    assume "submission_import_from_dict req tasks data s = Inr (obj, d', s')" "(key, c) = (''files'', File)"
    with assms submission_keyed [of req tasks data s obj d' s' key "map PDict rs" c] show ?thesis
      by auto
  next
    assume "submission_import_from_dict req tasks data s = Inr (obj, d', s')"
      "(key, c) = (''executables'', Executable)"
    with assms submission_keyed [of req tasks data s obj d' s' key "map PDict rs" c] show ?thesis
      by auto
  qed
  then obtain m base where m: "py_getattr s' obj key = Inr (PDict m)"
    "keyed_from s' c (map PDict rs) base m"
    by blast
  have "\<forall>j fn. j < length rs \<and> map_of (rs ! j) (PStr ''filename'') = Some fn \<longrightarrow>
                  s' ! (base + j) = (c, rs ! j) \<and>
                  (map_of m fn = Some (PRef (base + j)) \<longleftrightarrow>
                     (\<forall>l. j < l \<and> l < length rs \<longrightarrow>
                        map_of (rs ! l) (PStr ''filename'') \<noteq> Some fn))"
    using keyed_from_binds [OF m(2)] by blast
  with m(1) show "\<exists>m base. py_getattr s' obj key = Inr (PDict m) \<and>
               (\<forall>j fn. j < length rs \<and> map_of (rs ! j) (PStr ''filename'') = Some fn \<longrightarrow>
                  s' ! (base + j) = (c, rs ! j) \<and>
                  (map_of m fn = Some (PRef (base + j)) \<longleftrightarrow>
                     (\<forall>l. j < l \<and> l < length rs \<longrightarrow>
                        map_of (rs ! l) (PStr ''filename'') \<noteq> Some fn)))"
    by blast
qed

theorem keyed_collection_binding_witness:
  "getitem demo_task (PStr ''attachments'') =
     Inr (PList (map PDict
       [[(PStr ''filename'', PStr ''grader.cpp''), (PStr ''digest'', PStr ''d1'')],
        [(PStr ''filename'', PStr ''grader.cpp''), (PStr ''digest'', PStr ''d2'')]])) \<and>
   task_import_from_dict demo_req demo_task [] = Inr (PRef 2, demo_task_built, demo_task_store) \<and>
   (\<exists>m base. py_getattr demo_task_store (PRef 2) ''attachments'' = Inr (PDict m) \<and>
      demo_task_store ! (base + 0) =
        (Attachment, [(PStr ''filename'', PStr ''grader.cpp''), (PStr ''digest'', PStr ''d1'')]) \<and>
      demo_task_store ! (base + 1) =
        (Attachment, [(PStr ''filename'', PStr ''grader.cpp''), (PStr ''digest'', PStr ''d2'')]) \<and>
      map_of m (PStr ''grader.cpp'') = Some (PRef (base + 1)) \<and>
      map_of m (PStr ''grader.cpp'') \<noteq> Some (PRef (base + 0)))"
proof -
  let ?r1 = "[(PStr ''filename'', PStr ''grader.cpp''), (PStr ''digest'', PStr ''d1'')]"
  let ?r2 = "[(PStr ''filename'', PStr ''grader.cpp''), (PStr ''digest'', PStr ''d2'')]"
  have h: "getitem demo_task (PStr ''attachments'') = Inr (PList (map PDict [?r1, ?r2]))"
    by (simp add: demo_task_def getitem_def)
  note t = keyed_collection_binding [OF h, where req = demo_req and s = "[]" and c = Attachment,
      rule_format, where obj = "PRef 2" and d' = demo_task_built and s' = demo_task_store]
  from t demo_task_run obtain m base where
    m: "py_getattr demo_task_store (PRef 2) ''attachments'' = Inr (PDict m)"
    "\<forall>j fn. j < length [?r1, ?r2] \<and> map_of ([?r1, ?r2] ! j) (PStr ''filename'') = Some fn \<longrightarrow>
        demo_task_store ! (base + j) = (Attachment, [?r1, ?r2] ! j) \<and>
        (map_of m fn = Some (PRef (base + j)) \<longleftrightarrow>
           (\<forall>l. j < l \<and> l < length [?r1, ?r2] \<longrightarrow>
              map_of ([?r1, ?r2] ! l) (PStr ''filename'') \<noteq> Some fn))"
    by blast
  from m(2) [rule_format, of 1 "PStr ''grader.cpp''"]
  have 2: "demo_task_store ! (base + 1) = (Attachment, ?r2)"
    "map_of m (PStr ''grader.cpp'') = Some (PRef (base + 1))"
    by simp_all
  from m(2) [rule_format, of 0 "PStr ''grader.cpp''"]
  have 1: "demo_task_store ! (base + 0) = (Attachment, ?r1)"
    by simp
  from 2 have 3: "map_of m (PStr ''grader.cpp'') \<noteq> Some (PRef (base + 0))"
    by simp
  from h demo_task_run m(1) 1 2 3 show ?thesis
    by blast
qed

text \<open>
  Claim C2 fails as stated: a task record with two attachments named
  \<^verbatim>\<open>grader.cpp\<close> is imported without error, and the task's mapping holds the
  second attachment only.
\<close>

theorem keyed_collection_binding_counterexample:
  "task_import_from_dict demo_req
     [(PStr ''name'', PStr ''sum''),
      (PStr ''attachments'',
         PList [PDict [(PStr ''filename'', PStr ''grader.cpp''), (PStr ''digest'', PStr ''d1'')],
                PDict [(PStr ''filename'', PStr ''grader.cpp''), (PStr ''digest'', PStr ''d2'')]]),
      (PStr ''submission_format'', PList []),
      (PStr ''managers'', PList []),
      (PStr ''testcases'', PList [])]
     [] =
   Inr (PRef 2,
     [(PStr ''name'', PStr ''sum''),
      (PStr ''attachments'', PDict [(PStr ''grader.cpp'', PRef 1)]),
      (PStr ''submission_format'', PList []),
      (PStr ''managers'', PDict []),
      (PStr ''testcases'', PList [])],
     [(Attachment, [(PStr ''filename'', PStr ''grader.cpp''), (PStr ''digest'', PStr ''d1'')]),
      (Attachment, [(PStr ''filename'', PStr ''grader.cpp''), (PStr ''digest'', PStr ''d2'')]),
      (Task,
       [(PStr ''name'', PStr ''sum''),
        (PStr ''attachments'', PDict [(PStr ''grader.cpp'', PRef 1)]),
        (PStr ''submission_format'', PList []),
        (PStr ''managers'', PDict []),
        (PStr ''testcases'', PList [])])])"
  using demo_task_run by (simp add: demo_task_def demo_task_built_def demo_task_store_def)

subsection \<open>Stores that evolve; stable_export serializers\<close>

lemma evolves_refl: "evolves s s"
  by (simp add: evolves_def)




lemma class_attrs_new: "class_attrs c (s @ [(c, a)]) (PRef (length s)) = Some a"
  by (simp add: class_attrs_def)
















subsection \<open>Dictionaries as association lists\<close>

lemma map_fst_setitem: "k \<in> fst ` set d \<Longrightarrow> map fst (setitem d k v) = map fst d"
  by (induction d) force+





lemma wf_record_setitem:
  "wf_record req c a \<Longrightarrow> k \<in> fst ` set a \<Longrightarrow> wf_record req c (setitem a k v)"
  by (simp add: wf_record_def accepted_def map_fst_setitem fst_set_setitem insert_absorb)


subsection \<open>Lists of records: import, then export\<close>








lemma class_attrs_last: "class_attrs c (s @ [(c, a)]) (PRef (length s)) = Some a"
  by (rule class_attrs_new)


subsection \<open>Submissions: import, then export\<close>






subsection \<open>Users: import, then export\<close>





subsection \<open>Scores: import, then export\<close>







subsection \<open>Ranking views: import, then export\<close>



subsection \<open>Contests: import, then export\<close>









section \<open>Round trip\<close>



end
